theory Spec2Isabelle
  imports Main
begin

chapter \<open>Universal SCPI GUI: descriptor parsing, template substitution, instrument registry\<close>

text \<open>
  A shallow embedding of \<^verbatim>\<open>src/app.py\<close> and \<^verbatim>\<open>src/universal_pyvisa.py\<close>.
  A Python \<^verbatim>\<open>str\<close> is a \<^typ>\<open>string\<close>; a \<^typ>\<open>char\<close> stands for the code point
  of the same number, so the embedding covers text whose code points are below 256.
\<close>

section \<open>Python string primitives\<close>

text \<open>
  \<^verbatim>\<open>str.isspace\<close> on one character. Below 256 the white-space code points are
  9 to 13, 28 to 32, 133 and 160.
\<close>

definition is_space :: "char \<Rightarrow> bool" where
  "is_space c \<longleftrightarrow>
     c \<in> {CHR 0x09, CHR 0x0A, CHR 0x0B, CHR 0x0C, CHR 0x0D, CHR 0x1C, CHR 0x1D,
          CHR 0x1E, CHR 0x1F, CHR 0x20, CHR 0x85, CHR 0xA0}"

text \<open>\<^verbatim>\<open>s.strip()\<close>: white space removed at both ends.\<close>

definition strip :: "string \<Rightarrow> string" where
  "strip s = rev (dropWhile is_space (rev (dropWhile is_space s)))"

text \<open>
  \<^verbatim>\<open>s.lower()\<close>. Below 256 the upper-case letters are A to Z and the code points
  192 to 222 without 215; each is 32 below its lower-case letter.
\<close>

definition lower_char :: "char \<Rightarrow> char" where
  "lower_char c =
     (let n = (of_char c :: nat)
      in if (65 \<le> n \<and> n \<le> 90) \<or> (192 \<le> n \<and> n \<le> 222 \<and> n \<noteq> 215)
         then char_of (n + 32) else c)"

definition lower :: "string \<Rightarrow> string" where
  "lower s = map lower_char s"

text \<open>
  \<^verbatim>\<open>s.split(sep)\<close> for a separator of one character: the pieces between the
  separators, empty pieces kept. The result is never the empty list, so the first
  branch of the \<open>case\<close> is never taken.
\<close>

fun split :: "char \<Rightarrow> string \<Rightarrow> string list" where
  "split sep [] = [[]]"
| "split sep (c # cs) =
     (if c = sep then [] # split sep cs
      else (case split sep cs of [] \<Rightarrow> [[c]] | w # ws \<Rightarrow> (c # w) # ws))"

text \<open>
  \<^verbatim>\<open>left, right = s.split(sep, 1)\<close>, used by the source only where \<^verbatim>\<open>sep in s\<close>:
  the text before the first separator and the text after it.
\<close>

definition split_once :: "char \<Rightarrow> string \<Rightarrow> string \<times> string" where
  "split_once sep s = (takeWhile (\<lambda>c. c \<noteq> sep) s, tl (dropWhile (\<lambda>c. c \<noteq> sep) s))"

section \<open>Placeholders of a command template\<close>

text \<open>
  \<^verbatim>\<open>re.search(r"\{([^}]+)\}", s)\<close>: the leftmost \<^verbatim>\<open>{\<close> that is followed by at
  least one character other than \<^verbatim>\<open>}\<close> and then by \<^verbatim>\<open>}\<close>. The result is the
  text before the match, group 1, and the text after the match.
\<close>

fun find_placeholder :: "string \<Rightarrow> (string \<times> string \<times> string) option" where
  "find_placeholder [] = None"
| "find_placeholder (c # cs) =
     (let body = takeWhile (\<lambda>x. x \<noteq> CHR ''}'') cs;
          rest = dropWhile (\<lambda>x. x \<noteq> CHR ''}'') cs
      in if c = CHR ''{'' \<and> body \<noteq> [] \<and> rest \<noteq> [] then Some ([], body, tl rest)
         else map_option (\<lambda>(pre, g, post). (c # pre, g, post)) (find_placeholder cs))"

lemma find_placeholder_Cons:
  "find_placeholder (c # cs) =
     (if c = CHR ''{'' \<and> takeWhile (\<lambda>x. x \<noteq> CHR ''}'') cs \<noteq> [] \<and> dropWhile (\<lambda>x. x \<noteq> CHR ''}'') cs \<noteq> []
      then Some ([], takeWhile (\<lambda>x. x \<noteq> CHR ''}'') cs, tl (dropWhile (\<lambda>x. x \<noteq> CHR ''}'') cs))
      else map_option (\<lambda>(pre, g, post). (c # pre, g, post)) (find_placeholder cs))"
  by (simp add: Let_def)

lemma find_placeholder_length:
  "find_placeholder s = Some (pre, g, post) \<Longrightarrow> length s = length pre + length g + length post + 2"
proof (induction s arbitrary: pre)
  case Nil
  then show ?case by simp
next
  case (Cons c cs)
  let ?body = "takeWhile (\<lambda>x. x \<noteq> CHR ''}'') cs"
  let ?rest = "dropWhile (\<lambda>x. x \<noteq> CHR ''}'') cs"
  show ?case
  proof (cases "c = CHR ''{'' \<and> ?body \<noteq> [] \<and> ?rest \<noteq> []")
    case True
    with Cons.prems have eq: "pre = []" "g = ?body" "post = tl ?rest"
      unfolding find_placeholder_Cons by simp_all
    have "length cs = length ?body + length ?rest"
      by (metis length_append takeWhile_dropWhile_id)
    moreover from True have "0 < length ?rest"
      by simp
    ultimately show ?thesis unfolding eq by simp
  next
    case False
    from False have "find_placeholder (c # cs)
        = map_option (\<lambda>(pre, g, post). (c # pre, g, post)) (find_placeholder cs)"
      unfolding find_placeholder_Cons by auto
    with Cons.prems have "map_option (\<lambda>(pre, g, post). (c # pre, g, post)) (find_placeholder cs)
        = Some (pre, g, post)"
      by simp
    then obtain pre' where
      r: "find_placeholder cs = Some (pre', g, post)" and p: "pre = c # pre'"
      by (cases "find_placeholder cs") auto
    from Cons.IH [OF r] p show ?thesis by simp
  qed
qed

text \<open>
  \<^verbatim>\<open>[m.group(1) for m in re.finditer(r"\{([^}]+)\}", s)]\<close>: group 1 of every match,
  left to right, each search starting where the match before it ended.
\<close>

function finditer_groups :: "string \<Rightarrow> string list" where
  "finditer_groups s =
     (case find_placeholder s of
        None \<Rightarrow> []
      | Some (pre, g, post) \<Rightarrow> g # finditer_groups post)"
  by pat_completeness auto
termination
  by (relation "measure length") (auto dest: find_placeholder_length)

declare finditer_groups.simps [simp del]
declare find_placeholder.simps(2) [simp del]

text \<open>\<^verbatim>\<open>_first_placeholder_names\<close>; \<^verbatim>\<open>cmd_template or ""\<close> turns None into the empty text.\<close>

definition first_placeholder_names :: "string option \<Rightarrow> string list" where
  "first_placeholder_names cmd_template =
     map strip (finditer_groups (case cmd_template of None \<Rightarrow> [] | Some t \<Rightarrow> t))"

section \<open>Parameter definitions\<close>

datatype param_kind = FREE | OPTIONS

record ParamDef =
  name :: string
  kind :: param_kind
  options :: "string list"
  format_spec :: string

text \<open>
  The \<^verbatim>\<open>for part in parts\<close> loop of \<^verbatim>\<open>parse_param_defs\<close>; \<open>out\<close> is the list the
  loop appends to.
\<close>

fun parse_parts :: "string list \<Rightarrow> ParamDef list \<Rightarrow> ParamDef list" where
  "parse_parts [] out = out"
| "parse_parts (part # parts) out =
     (if part = [] then parse_parts parts out
      else if CHR '':'' \<in> set part then
        (let left = strip (fst (split_once CHR '':'' part));
             right = strip (snd (split_once CHR '':'' part))
         in if CHR '';'' \<in> set right then
              parse_parts parts
                (out @ [\<lparr>name = left, kind = OPTIONS,
                         options = filter (\<lambda>opt. opt \<noteq> []) (map strip (split CHR '';'' right)),
                         format_spec = []\<rparr>])
            else
              parse_parts parts
                (out @ [\<lparr>name = left, kind = FREE, options = [], format_spec = right\<rparr>]))
      else
        parse_parts parts
          (out @ [\<lparr>name = part, kind = FREE, options = [], format_spec = []\<rparr>]))"

definition parse_param_defs :: "string option \<Rightarrow> string option \<Rightarrow> ParamDef list" where
  "parse_param_defs parameters_raw cmd_template =
     (let s = (case parameters_raw of None \<Rightarrow> [] | Some r \<Rightarrow> strip r)
      in if s = [] \<or> lower s \<in> {''nan'', ''none''} then
           map (\<lambda>p. \<lparr>name = p, kind = FREE, options = [], format_spec = []\<rparr>)
             (first_placeholder_names cmd_template)
         else parse_parts (map strip (split CHR ''|'' s)) [])"

subsection \<open>The grammar of the specification, part by part\<close>

text \<open>
  The non-empty trimmed parts of a raw specification between \<^verbatim>\<open>|\<close>, and what the
  specification says one such part means.
\<close>

definition spec_parts :: "string \<Rightarrow> string list" where
  "spec_parts raw = filter (\<lambda>p. p \<noteq> []) (map strip (split CHR ''|'' (strip raw)))"

definition spec_tokens :: "string \<Rightarrow> string list" where
  "spec_tokens right = filter (\<lambda>t. t \<noteq> []) (map strip (split CHR '';'' right))"

definition spec_part_def :: "string \<Rightarrow> ParamDef" where
  "spec_part_def part =
     (if CHR '':'' \<notin> set part
      then \<lparr>name = part, kind = FREE, options = [], format_spec = []\<rparr>
      else
        (let right = strip (tl (dropWhile (\<lambda>c. c \<noteq> CHR '':'') part))
         in if CHR '';'' \<in> set right
            then \<lparr>name = strip (takeWhile (\<lambda>c. c \<noteq> CHR '':'') part), kind = OPTIONS,
                  options = spec_tokens right, format_spec = []\<rparr>
            else \<lparr>name = strip (takeWhile (\<lambda>c. c \<noteq> CHR '':'') part), kind = FREE,
                  options = [], format_spec = right\<rparr>))"

subsection \<open>Templates built from literal text and placeholders\<close>

datatype piece = Lit string | Hole string

fun render :: "piece list \<Rightarrow> string" where
  "render [] = []"
| "render (Lit s # ps) = s @ render ps"
| "render (Hole b # ps) = CHR ''{'' # b @ CHR ''}'' # render ps"

fun holes :: "piece list \<Rightarrow> string list" where
  "holes [] = []"
| "holes (Lit s # ps) = holes ps"
| "holes (Hole b # ps) = b # holes ps"

fun well_formed :: "piece list \<Rightarrow> bool" where
  "well_formed [] \<longleftrightarrow> True"
| "well_formed (Lit s # ps) \<longleftrightarrow> CHR ''{'' \<notin> set s \<and> well_formed ps"
| "well_formed (Hole b # ps) \<longleftrightarrow> b \<noteq> [] \<and> CHR ''}'' \<notin> set b \<and> well_formed ps"

text \<open>A template in which every placeholder is replaced with the text \<open>v\<close>.\<close>

fun fill_hole :: "string \<Rightarrow> piece \<Rightarrow> piece" where
  "fill_hole v (Lit s) = Lit s"
| "fill_hole v (Hole b) = Lit v"

section \<open>The instrument registry\<close>

subsection \<open>More string primitives\<close>

text \<open>
  \<^verbatim>\<open>s.casefold()\<close>. Below 256 it is \<^verbatim>\<open>lower\<close> but for two code points: the sharp s
  (223) folds to \<^verbatim>\<open>ss\<close>, and the micro sign (181) folds to the Greek mu (956). No
  other code point below 256 folds to the Greek mu, so keeping the micro sign as it
  is leaves every comparison of two folded texts as Python decides it.
\<close>

definition casefold_char :: "char \<Rightarrow> string" where
  "casefold_char c = (if c = CHR 0xDF then ''ss'' else [lower_char c])"

definition casefold :: "string \<Rightarrow> string" where
  "casefold s = concat (map casefold_char s)"

text \<open>
  \<^verbatim>\<open>s.split()\<close> without separator: the maximal runs of characters that are not
  white space. The second argument is the run read so far.
\<close>

fun split_ws_from :: "string \<Rightarrow> string \<Rightarrow> string list" where
  "split_ws_from [] w = (if w = [] then [] else [w])"
| "split_ws_from (c # cs) w =
     (if is_space c then (if w = [] then split_ws_from cs [] else w # split_ws_from cs [])
      else split_ws_from cs (w @ [c]))"

definition split_ws :: "string \<Rightarrow> string list" where
  "split_ws s = split_ws_from s []"

text \<open>\<^verbatim>\<open>sep.join(xs)\<close>.\<close>

fun join :: "string \<Rightarrow> string list \<Rightarrow> string" where
  "join sep [] = []"
| "join sep [x] = x"
| "join sep (x # y # ys) = x @ sep @ join sep (y # ys)"

subsection \<open>Instruments and the transport\<close>

datatype DeviceKind = VISA | SERIAL_115200_LF

text \<open>
  \<^verbatim>\<open>class Instrument\<close>. Discovery stores None in \<open>vendor\<close>, \<open>model\<close> or \<open>serial\<close>
  when the identity response has too few parts, so the three fields are optional.
\<close>

record Instrument =
  visa_name :: string
  dev_kind :: DeviceKind
  vendor :: "string option"
  model :: "string option"
  serial :: "string option"
  "alias" :: "string option"

text \<open>
  The transport (pyvisa) is outside the source. It is a parameter of the embedding:
  each primitive answers from the events that happened before it, which covers every
  deterministic device. A primitive fails with a time-out (\<^verbatim>\<open>VisaIOError\<close> with status
  \<^verbatim>\<open>error_timeout\<close>) or with any other exception. The events are the record of what
  was sent to the transport.
\<close>

datatype io_fault = Timeout | Failure string

datatype event = Listed | Opened string | Wrote string string | ReadFrom string

definition is_read :: "event \<Rightarrow> bool" where
  "is_read ev = (case ev of ReadFrom r \<Rightarrow> True | _ \<Rightarrow> False)"

record transport =
  list_resources :: "event list \<Rightarrow> io_fault + string list"
  open_resource :: "event list \<Rightarrow> string \<Rightarrow> io_fault option"
  write_prim :: "event list \<Rightarrow> string \<Rightarrow> string \<Rightarrow> io_fault option"
  read_prim :: "event list \<Rightarrow> string \<Rightarrow> io_fault + string"

text \<open>
  The Python exceptions that the embedded code can raise. \<open>TemplateError\<close> is what
  \<^verbatim>\<open>re.sub\<close> raises for a replacement text that it cannot parse.
\<close>

datatype py_exc = TemplateError | ValueError | AttributeError | TransportError io_fault

text \<open>
  \<^verbatim>\<open>Instrument.query\<close>: open the resource, write the command, read the response. A
  time-out of the read is an empty response; every other failure is raised. Both
  device kinds take the same path; the \<^verbatim>\<open>else\<close> branch of the source needs a third
  kind, which \<^verbatim>\<open>DeviceKind\<close> does not have.
\<close>

definition instrument_query ::
  "transport \<Rightarrow> Instrument \<Rightarrow> string \<Rightarrow> event list \<Rightarrow> (py_exc + string) \<times> event list" where
  "instrument_query T inst command evs =
     (let evs1 = evs @ [Opened (visa_name inst)] in
      case open_resource T evs (visa_name inst) of
        Some e \<Rightarrow> (Inl (TransportError e), evs1)
      | None \<Rightarrow>
          (let evs2 = evs1 @ [Wrote (visa_name inst) command] in
           case write_prim T evs1 (visa_name inst) command of
             Some e \<Rightarrow> (Inl (TransportError e), evs2)
           | None \<Rightarrow>
               (let evs3 = evs2 @ [ReadFrom (visa_name inst)] in
                case read_prim T evs2 (visa_name inst) of
                  Inr response \<Rightarrow> (Inr response, evs3)
                | Inl Timeout \<Rightarrow> (Inr [], evs3)
                | Inl (Failure msg) \<Rightarrow> (Inl (TransportError (Failure msg)), evs3))))"

text \<open>
  \<^verbatim>\<open>Instrument.write\<close>: open the resource and write the command. A time-out of the
  write is not an error.
\<close>

definition instrument_write ::
  "transport \<Rightarrow> Instrument \<Rightarrow> string \<Rightarrow> event list \<Rightarrow> (py_exc + unit) \<times> event list" where
  "instrument_write T inst command evs =
     (let evs1 = evs @ [Opened (visa_name inst)] in
      case open_resource T evs (visa_name inst) of
        Some e \<Rightarrow> (Inl (TransportError e), evs1)
      | None \<Rightarrow>
          (let evs2 = evs1 @ [Wrote (visa_name inst) command] in
           case write_prim T evs1 (visa_name inst) command of
             None \<Rightarrow> (Inr (), evs2)
           | Some Timeout \<Rightarrow> (Inr (), evs2)
           | Some (Failure msg) \<Rightarrow> (Inl (TransportError (Failure msg)), evs2)))"

subsection \<open>Discovery\<close>

text \<open>
  The identity response split into vendor, model and serial: at the commas when
  there are at least three, at white space otherwise.
\<close>

definition parse_idn :: "string \<Rightarrow> string option \<times> string option \<times> string option" where
  "parse_idn response =
     (let parts = (if 3 \<le> count_list response CHR '',''
                   then filter (\<lambda>p. p \<noteq> []) (map strip (split CHR '','' response))
                   else split_ws response)
      in (if 0 < length parts then Some (parts ! 0) else None,
          if 1 < length parts then Some (parts ! 1) else None,
          if 2 < length parts then Some (join '' '' (drop 2 parts)) else None))"

text \<open>
  One round of the loop of \<^verbatim>\<open>find_instruments\<close>: the instrument to append, if any.
  Every exception on the way is caught and the resource skipped.
\<close>

definition scan_resource ::
  "transport \<Rightarrow> string \<Rightarrow> event list \<Rightarrow> Instrument option \<times> event list" where
  "scan_resource T r evs =
     (let kind = (if take 4 r = ''ASRL'' then SERIAL_115200_LF else VISA);
          evs1 = evs @ [Opened r] in
      case open_resource T evs r of
        Some e \<Rightarrow> (None, evs1)
      | None \<Rightarrow>
          (let evs2 = evs1 @ [Wrote r ''*IDN?''] in
           case write_prim T evs1 r ''*IDN?'' of
             Some e \<Rightarrow> (None, evs2)
           | None \<Rightarrow>
               (let evs3 = evs2 @ [ReadFrom r] in
                case read_prim T evs2 r of
                  Inl e \<Rightarrow> (None, evs3)
                | Inr response \<Rightarrow>
                    if 8 < length response then
                      (case parse_idn response of
                         (v, m, s) \<Rightarrow>
                           (Some \<lparr>visa_name = r, dev_kind = kind, vendor = v, model = m,
                                  serial = s, alias = None\<rparr>, evs3))
                    else (None, evs3))))"

fun scan_all ::
  "transport \<Rightarrow> string list \<Rightarrow> Instrument list \<Rightarrow> event list \<Rightarrow> Instrument list \<times> event list" where
  "scan_all T [] coll evs = (coll, evs)"
| "scan_all T (r # rs) coll evs =
     (case scan_resource T r evs of
        (None, evs') \<Rightarrow> scan_all T rs coll evs'
      | (Some x, evs') \<Rightarrow> scan_all T rs (coll @ [x]) evs')"

text \<open>
  \<^verbatim>\<open>upyvisa.find_instruments\<close>. The second argument is \<^verbatim>\<open>self.instrument_collection\<close>
  before the call; the first statement of the source overwrites it with the empty
  list. The result is what the call raises or returns, the collection and the
  events after it.
\<close>

definition find_instruments ::
  "transport \<Rightarrow> Instrument list \<Rightarrow> event list \<Rightarrow> (py_exc + unit) \<times> Instrument list \<times> event list" where
  "find_instruments T instrument_collection evs =
     (case list_resources T evs of
        Inl e \<Rightarrow> (Inl (TransportError e), [], evs @ [Listed])
      | Inr resources \<Rightarrow>
          (case scan_all T resources [] (evs @ [Listed]) of
             (coll, evs') \<Rightarrow> (Inr (), coll, evs')))"

subsection \<open>Aliases\<close>

text \<open>
  The condition of the \<^verbatim>\<open>if\<close> in \<^verbatim>\<open>set_alias\<close>: three comparisons joined by
  \<^verbatim>\<open>and\<close>, evaluated left to right up to the first that is false. \<^verbatim>\<open>strip\<close> on a
  field that is None raises \<^verbatim>\<open>AttributeError\<close>.
\<close>

definition identity_matches :: "Instrument \<Rightarrow> string \<Rightarrow> string \<Rightarrow> string \<Rightarrow> py_exc + bool" where
  "identity_matches inst v m s =
     (case vendor inst of
        None \<Rightarrow> Inl AttributeError
      | Some iv \<Rightarrow>
          if casefold (strip iv) \<noteq> casefold (strip v) then Inr False
          else
            (case model inst of
               None \<Rightarrow> Inl AttributeError
             | Some im \<Rightarrow>
                 if casefold (strip im) \<noteq> casefold (strip m) then Inr False
                 else
                   (case serial inst of
                      None \<Rightarrow> Inl AttributeError
                    | Some isr \<Rightarrow> Inr (casefold (strip isr) = casefold (strip s)))))"

text \<open>
  \<^verbatim>\<open>upyvisa.set_alias\<close>: what the call raises or returns (1 or -1), and the
  collection after it.
\<close>

fun set_alias ::
  "string \<Rightarrow> string \<Rightarrow> string \<Rightarrow> string \<Rightarrow> Instrument list \<Rightarrow> (py_exc + int) \<times> Instrument list" where
  "set_alias a v m s [] = (Inr (- 1), [])"
| "set_alias a v m s (inst # rest) =
     (case identity_matches inst v m s of
        Inl e \<Rightarrow> (Inl e, inst # rest)
      | Inr True \<Rightarrow> (Inr 1, inst\<lparr>alias := Some a\<rparr> # rest)
      | Inr False \<Rightarrow>
          (case set_alias a v m s rest of (r, rest') \<Rightarrow> (r, inst # rest')))"

text \<open>
  The test of \<^verbatim>\<open>query\<close> and \<^verbatim>\<open>write\<close> on one instrument: it has an alias, and the
  alias equals the given one once both are trimmed and case-folded.
\<close>

definition alias_matches :: "string \<Rightarrow> Instrument \<Rightarrow> bool" where
  "alias_matches a inst =
     (case alias inst of
        None \<Rightarrow> False
      | Some ia \<Rightarrow> casefold (strip ia) = casefold (strip a))"

text \<open>\<^verbatim>\<open>upyvisa.query\<close>: the loop, with \<^verbatim>\<open>query_return\<close> as its accumulator.\<close>

fun query_loop ::
  "transport \<Rightarrow> Instrument list \<Rightarrow> string \<Rightarrow> string \<Rightarrow> string \<Rightarrow> event list
     \<Rightarrow> (py_exc + string) \<times> event list" where
  "query_loop T [] a cmd query_return evs = (Inr query_return, evs)"
| "query_loop T (inst # rest) a cmd query_return evs =
     (if alias_matches a inst then
        (case instrument_query T inst cmd evs of
           (Inl e, evs') \<Rightarrow> (Inl e, evs')
         | (Inr response, evs') \<Rightarrow> query_loop T rest a cmd (response @ query_return) evs')
      else query_loop T rest a cmd query_return evs)"

definition upyvisa_query ::
  "transport \<Rightarrow> Instrument list \<Rightarrow> string \<Rightarrow> string \<Rightarrow> event list \<Rightarrow> (py_exc + string) \<times> event list" where
  "upyvisa_query T instrument_collection a cmd evs = query_loop T instrument_collection a cmd [] evs"

text \<open>\<^verbatim>\<open>upyvisa.write\<close>: the first instrument that answers to the alias, if any.\<close>

fun upyvisa_write ::
  "transport \<Rightarrow> Instrument list \<Rightarrow> string \<Rightarrow> string \<Rightarrow> event list \<Rightarrow> (py_exc + unit) \<times> event list" where
  "upyvisa_write T [] a cmd evs = (Inr (), evs)"
| "upyvisa_write T (inst # rest) a cmd evs =
     (if alias_matches a inst then instrument_write T inst cmd evs
      else upyvisa_write T rest a cmd evs)"

subsection \<open>The registry operations of the specification\<close>

text \<open>
  \<open>resolve\<close>: the first instrument that answers to an alias. \<open>query_each\<close>: the
  individual queries of a list of instruments, one after the other, up to the first
  that raises.
\<close>

definition resolve :: "string \<Rightarrow> Instrument list \<Rightarrow> Instrument option" where
  "resolve a insts = find (alias_matches a) insts"

fun query_each ::
  "transport \<Rightarrow> Instrument list \<Rightarrow> string \<Rightarrow> event list \<Rightarrow> (py_exc + string list) \<times> event list" where
  "query_each T [] cmd evs = (Inr [], evs)"
| "query_each T (inst # rest) cmd evs =
     (case instrument_query T inst cmd evs of
        (Inl e, evs') \<Rightarrow> (Inl e, evs')
      | (Inr response, evs') \<Rightarrow>
          (case query_each T rest cmd evs' of
             (Inl e, evs'') \<Rightarrow> (Inl e, evs'')
           | (Inr responses, evs'') \<Rightarrow> (Inr (response # responses), evs'')))"

definition has_identity :: "Instrument \<Rightarrow> bool" where
  "has_identity inst \<longleftrightarrow> vendor inst \<noteq> None \<and> model inst \<noteq> None \<and> serial inst \<noteq> None"

section \<open>The value formatter\<close>

subsection \<open>Decimal numerals\<close>

definition is_digit :: "char \<Rightarrow> bool" where
  "is_digit c \<longleftrightarrow> 48 \<le> (of_char c :: nat) \<and> (of_char c :: nat) \<le> 57"

text \<open>\<^verbatim>\<open>int(ds)\<close> for a text of decimal digits.\<close>

definition int_of_digits :: "string \<Rightarrow> int" where
  "int_of_digits ds = foldl (\<lambda>n c. 10 * n + (of_char c - 48)) 0 ds"

text \<open>\<^verbatim>\<open>str(n)\<close> for an integer that is not negative.\<close>

function int_digits :: "int \<Rightarrow> string" where
  "int_digits n =
     (if n < 10 then [char_of (48 + n)]
      else int_digits (n div 10) @ [char_of (48 + n mod 10)])"
  by pat_completeness auto
termination
  by (relation "measure nat") auto

declare int_digits.simps [simp del]

text \<open>The number of binary digits of a positive integer.\<close>

function bit_length :: "int \<Rightarrow> nat" where
  "bit_length n = (if n \<le> 0 then 0 else Suc (bit_length (n div 2)))"
  by pat_completeness auto
termination
  by (relation "measure nat") auto

declare bit_length.simps [simp del]

subsection \<open>Python floats\<close>

text \<open>
  A Python \<^verbatim>\<open>float\<close> is an IEEE 754 binary64 number: \<open>Finite neg m p\<close> is
  \<open>m * 2 ^ p\<close>, negative when \<open>neg\<close> holds (the sign of a zero is kept), next to the
  two infinities and NaN. All arithmetic on floats below is exact arithmetic on
  integers.
\<close>

datatype pyfloat = Finite bool int int | Infinite bool | NaN

text \<open>
  The quotient \<open>num / den\<close> of two integers, \<open>0 \<le> num\<close> and \<open>0 < den\<close>, rounded to
  the nearest integer, a tie to the even one: the rounding of binary64 and of
  \<^verbatim>\<open>format\<close>.
\<close>

definition round_half_even :: "int \<Rightarrow> int \<Rightarrow> int" where
  "round_half_even num den =
     (let q = num div den; r = num mod den
      in if 2 * r < den then q
         else if den < 2 * r then q + 1
         else if even q then q else q + 1)"

text \<open>
  The binary64 number nearest to \<open>a / b\<close> (for \<open>0 < b\<close>). With \<open>e\<close> the integer part
  of the binary logarithm of \<open>a / b\<close>, the last binary place kept is
  \<open>p = max (e - 52) (- 1074)\<close>; a result of \<open>2 ^ 1024\<close> or more is an infinity, as
  \<^verbatim>\<open>float\<close> gives for a decimal text that is too large.
\<close>

definition binary64 :: "bool \<Rightarrow> int \<Rightarrow> int \<Rightarrow> pyfloat" where
  "binary64 neg a b =
     (if a = 0 then Finite neg 0 0
      else
        (let e0 = int (bit_length a) - int (bit_length b);
             e = (if (if 0 \<le> e0 then b * 2 ^ nat e0 \<le> a else b \<le> a * 2 ^ nat (- e0))
                  then e0 else e0 - 1);
             p = max (e - 52) (- 1074);
             m = (if 0 \<le> p then round_half_even a (b * 2 ^ nat p)
                  else round_half_even (a * 2 ^ nat (- p)) b)
         in if 0 \<le> p \<and> 2 ^ 1024 \<le> m * 2 ^ nat p then Infinite neg else Finite neg m p))"

subsection \<open>\<^verbatim>\<open>float(value)\<close>\<close>

text \<open>
  \<^verbatim>\<open>float\<close> on a text first turns the white space above 127 (133 and 160) into
  blanks, then drops the white space of C (9 to 13 and 32) at both ends. The code
  points 28 to 31, which \<^verbatim>\<open>strip\<close> removes, stay.
\<close>

definition is_c_space :: "char \<Rightarrow> bool" where
  "is_c_space c \<longleftrightarrow> c \<in> {CHR 0x09, CHR 0x0A, CHR 0x0B, CHR 0x0C, CHR 0x0D, CHR 0x20}"

definition float_trim :: "string \<Rightarrow> string" where
  "float_trim s =
     (let t = map (\<lambda>c. if c = CHR 0x85 \<or> c = CHR 0xA0 then CHR 0x20 else c) s
      in rev (dropWhile is_c_space (rev (dropWhile is_c_space t))))"

text \<open>
  Underscores are allowed between two digits only, and removed. The first argument
  is the character before.
\<close>

fun drop_underscores :: "char \<Rightarrow> string \<Rightarrow> string option" where
  "drop_underscores prev [] = (if prev = CHR ''_'' then None else Some [])"
| "drop_underscores prev (c # cs) =
     (if c = CHR ''_'' then (if is_digit prev then drop_underscores c cs else None)
      else if prev = CHR ''_'' \<and> \<not> is_digit c then None
      else map_option ((#) c) (drop_underscores c cs))"

text \<open>An optional sign: whether it is a minus, and the text after it.\<close>

definition take_sign :: "string \<Rightarrow> bool \<times> string" where
  "take_sign s =
     (case s of
        [] \<Rightarrow> (False, [])
      | c # cs \<Rightarrow> if c = CHR ''-'' then (True, cs) else if c = CHR ''+'' then (False, cs) else (False, s))"

definition lower_ascii :: "string \<Rightarrow> string" where
  "lower_ascii s =
     map (\<lambda>c. if 65 \<le> (of_char c :: nat) \<and> (of_char c :: nat) \<le> 90
              then char_of ((of_char c :: nat) + 32) else c) s"

text \<open>
  The exponent part: empty, or \<^verbatim>\<open>e\<close> or \<^verbatim>\<open>E\<close>, an optional sign and at least one
  digit.
\<close>

definition parse_exponent :: "string \<Rightarrow> int option" where
  "parse_exponent s =
     (case s of
        [] \<Rightarrow> Some 0
      | c # cs \<Rightarrow>
          if c = CHR ''e'' \<or> c = CHR ''E'' then
            (case take_sign cs of
               (eneg, ds) \<Rightarrow>
                 if ds \<noteq> [] \<and> list_all is_digit ds
                 then Some (if eneg then - int_of_digits ds else int_of_digits ds)
                 else None)
          else None)"

text \<open>The binary64 number nearest to \<open>M * 10 ^ E\<close>.\<close>

definition decimal_float :: "bool \<Rightarrow> int \<Rightarrow> int \<Rightarrow> pyfloat" where
  "decimal_float neg M E =
     (if 0 \<le> E then binary64 neg (M * 10 ^ nat E) 1
      else binary64 neg M (10 ^ nat (- E)))"

text \<open>
  The text after trimming and without underscores: a sign, then either digits with
  an optional point and an optional exponent (at least one digit before the
  exponent), or \<^verbatim>\<open>inf\<close>, \<^verbatim>\<open>infinity\<close> or \<^verbatim>\<open>nan\<close> in any letter case. With \<open>M\<close>
  the digits read as one numeral and \<open>E\<close> the exponent less the number of digits
  after the point, the value \<open>M * 10 ^ E\<close> is rounded to binary64.
\<close>

definition parse_float :: "string \<Rightarrow> pyfloat option" where
  "parse_float s =
     (case take_sign s of
        (neg, r) \<Rightarrow>
          (let ip = takeWhile is_digit r;
               r1 = dropWhile is_digit r;
               fp = (case r1 of [] \<Rightarrow> [] | c # cs \<Rightarrow> if c = CHR ''.'' then takeWhile is_digit cs else []);
               r2 = (case r1 of [] \<Rightarrow> [] | c # cs \<Rightarrow> if c = CHR ''.'' then dropWhile is_digit cs else r1)
           in if ip = [] \<and> fp = [] then
                (if lower_ascii r = ''inf'' \<or> lower_ascii r = ''infinity'' then Some (Infinite neg)
                 else if lower_ascii r = ''nan'' then Some NaN
                 else None)
              else
                (case parse_exponent r2 of
                   None \<Rightarrow> None
                 | Some ex \<Rightarrow>
                     Some (decimal_float neg (int_of_digits (ip @ fp)) (ex - int (length fp))))))"

text \<open>\<^verbatim>\<open>float(value)\<close>; None stands for the \<^verbatim>\<open>ValueError\<close> it raises.\<close>

definition float_of_str :: "string \<Rightarrow> pyfloat option" where
  "float_of_str v =
     (let t = float_trim v
      in if t = [] then None
         else (case drop_underscores CHR 0x00 t of None \<Rightarrow> None | Some u \<Rightarrow> parse_float u))"

subsection \<open>\<^verbatim>\<open>f"{f:.{decimals}f}"\<close>\<close>

text \<open>
  Fixed-point rendering with \<open>n\<close> places: the float times \<open>10 ^ n\<close>, rounded to the
  nearest integer \<open>r\<close> (a tie to the even one), written as the digits of
  \<open>r div 10 ^ n\<close>, and for \<open>0 < n\<close> a point and the \<open>n\<close> digits of \<open>r mod 10 ^ n\<close>.
  An infinity is \<^verbatim>\<open>inf\<close> or \<^verbatim>\<open>-inf\<close>, a NaN is \<^verbatim>\<open>nan\<close>.
\<close>

definition pad_zeros :: "nat \<Rightarrow> string \<Rightarrow> string" where
  "pad_zeros n s = replicate (n - length s) CHR ''0'' @ s"

definition scaled :: "nat \<Rightarrow> int \<Rightarrow> int \<Rightarrow> int" where
  "scaled n m p =
     (if 0 \<le> p then m * 2 ^ nat p * 10 ^ n
      else round_half_even (m * 10 ^ n) (2 ^ nat (- p)))"

definition format_f :: "nat \<Rightarrow> pyfloat \<Rightarrow> string" where
  "format_f n x =
     (case x of
        NaN \<Rightarrow> ''nan''
      | Infinite neg \<Rightarrow> (if neg then ''-inf'' else ''inf'')
      | Finite neg m p \<Rightarrow>
          (if neg then ''-'' else []) @ int_digits (scaled n m p div 10 ^ n)
            @ (if n = 0 then [] else CHR ''.'' # pad_zeros n (int_digits (scaled n m p mod 10 ^ n))))"

text \<open>
  A text with exactly \<open>n\<close> decimal places: an optional minus, at least one digit,
  and for \<open>0 < n\<close> a point and \<open>n\<close> digits.
\<close>

definition fixed_point :: "nat \<Rightarrow> string \<Rightarrow> bool" where
  "fixed_point n s =
     (let t = (case s of [] \<Rightarrow> [] | c # cs \<Rightarrow> if c = CHR ''-'' then cs else s);
          ip = takeWhile is_digit t;
          r = dropWhile is_digit t
      in ip \<noteq> [] \<and>
         (if n = 0 then r = []
          else r \<noteq> [] \<and> hd r = CHR ''.'' \<and> length (tl r) = n \<and> list_all is_digit (tl r)))"

subsection \<open>\<^verbatim>\<open>_apply_format_spec\<close>\<close>

text \<open>
  \<^verbatim>\<open>re.fullmatch(r"V\.(\d+)f", s, flags=re.IGNORECASE)\<close>: group 1 if the text
  matches. Below 256 the digits of \<^verbatim>\<open>\d\<close> are 0 to 9.
\<close>

definition match_vf :: "string \<Rightarrow> string option" where
  "match_vf s =
     (case s of
        v # d # rest \<Rightarrow>
          if (v = CHR ''V'' \<or> v = CHR ''v'') \<and> d = CHR ''.'' \<and> rest \<noteq> []
             \<and> (last rest = CHR ''f'' \<or> last rest = CHR ''F'')
             \<and> butlast rest \<noteq> [] \<and> list_all is_digit (butlast rest)
          then Some (butlast rest) else None
      | _ \<Rightarrow> None)"

text \<open>
  The two limits of CPython that the source does not guard: \<^verbatim>\<open>int\<close> refuses a text
  of more than 4300 digits, and \<^verbatim>\<open>format\<close> refuses a precision above
  \<open>2 ^ 31 - 1\<close>. Both raise \<^verbatim>\<open>ValueError\<close> outside the \<^verbatim>\<open>try\<close> of the source.
\<close>

definition int_max_str_digits :: nat where
  "int_max_str_digits = 4300"

definition max_precision :: int where
  "max_precision = 2147483647"

definition apply_format_spec :: "string \<Rightarrow> string \<Rightarrow> py_exc + string" where
  "apply_format_spec value fmt =
     (if fmt = [] then Inr value
      else
        (case match_vf (strip fmt) of
           None \<Rightarrow> Inr value
         | Some ds \<Rightarrow>
             if int_max_str_digits < length ds then Inl ValueError
             else
               (case float_of_str value of
                  None \<Rightarrow> Inr value
                | Some f \<Rightarrow>
                    if max_precision < int_of_digits ds then Inl ValueError
                    else Inr (format_f (nat (int_of_digits ds)) f))))"

section \<open>Substitution with \<^verbatim>\<open>re.sub\<close>\<close>

text \<open>
  \<^verbatim>\<open>re.sub(pattern, repl, string)\<close> reads \<open>repl\<close> as a template: a backslash starts an
  escape. The parsed template is a list of literal characters and references to the
  whole match (group 0, the only group of the two patterns of the source).
  \<open>TemplateError\<close> stands for what the template parser of CPython raises
  (\<^verbatim>\<open>re.error\<close>, or \<^verbatim>\<open>IndexError\<close> for a group name that is not known).
\<close>

datatype tpl_piece = TLit char | TGroup0

definition is_octal :: "char \<Rightarrow> bool" where
  "is_octal c \<longleftrightarrow> 48 \<le> (of_char c :: nat) \<and> (of_char c :: nat) \<le> 55"

definition octal_val :: "char \<Rightarrow> nat" where
  "octal_val c = of_char c - 48"

definition is_ascii_letter :: "char \<Rightarrow> bool" where
  "is_ascii_letter c \<longleftrightarrow>
     (65 \<le> (of_char c :: nat) \<and> (of_char c :: nat) \<le> 90)
     \<or> (97 \<le> (of_char c :: nat) \<and> (of_char c :: nat) \<le> 122)"

text \<open>The escapes that stand for one character.\<close>

definition escape_char :: "char \<Rightarrow> char option" where
  "escape_char c =
     (if c = CHR ''a'' then Some (CHR 0x07)
      else if c = CHR ''b'' then Some (CHR 0x08)
      else if c = CHR ''f'' then Some (CHR 0x0C)
      else if c = CHR ''n'' then Some (CHR 0x0A)
      else if c = CHR ''r'' then Some (CHR 0x0D)
      else if c = CHR ''t'' then Some (CHR 0x09)
      else if c = CHR ''v'' then Some (CHR 0x0B)
      else if c = CHR 0x5C then Some (CHR 0x5C)
      else None)"

text \<open>
  One escape, given the text after its backslash: the pieces it stands for and the
  text after it (\<^verbatim>\<open>parse_template\<close> of CPython 3.12 for a pattern without groups).
  \<^item> nothing after the backslash: an error;
  \<^item> \<^verbatim>\<open>\g<name>\<close>: the whole match when the name is a decimal numeral of value 0,
    an error otherwise;
  \<^item> \<^verbatim>\<open>\0\<close> with up to two octal digits after it: the character of that code;
  \<^item> \<^verbatim>\<open>\1\<close> to \<^verbatim>\<open>\9\<close>: the character of that code when three octal digits give
    at most 255, an error otherwise (a reference to a group that is not there);
  \<^item> \<^verbatim>\<open>\a \b \f \n \r \t \v \\\<close>: one character;
  \<^item> any other ASCII letter: an error; any other character: the backslash and the
    character stay.
\<close>

definition template_escape :: "string \<Rightarrow> py_exc + (tpl_piece list \<times> string)" where
  "template_escape s =
     (case s of
        [] \<Rightarrow> Inl TemplateError
      | c # cs \<Rightarrow>
          if c = CHR ''g'' then
            (case cs of
               [] \<Rightarrow> Inl TemplateError
             | b # bs \<Rightarrow>
                 if b \<noteq> CHR ''<'' then Inl TemplateError
                 else
                   (let nm = takeWhile (\<lambda>x. x \<noteq> CHR ''>'') bs;
                        rest = dropWhile (\<lambda>x. x \<noteq> CHR ''>'') bs
                    in if rest = [] \<or> nm = [] \<or> \<not> list_all is_digit nm
                          \<or> int_max_str_digits < length nm \<or> int_of_digits nm \<noteq> 0
                       then Inl TemplateError
                       else Inr ([TGroup0], tl rest)))
          else if c = CHR ''0'' then
            (case cs of
               [] \<Rightarrow> Inr ([TLit (CHR 0x00)], [])
             | d1 # ds1 \<Rightarrow>
                 if is_octal d1 then
                   (case ds1 of
                      [] \<Rightarrow> Inr ([TLit (char_of (octal_val d1))], [])
                    | d2 # ds2 \<Rightarrow>
                        if is_octal d2
                        then Inr ([TLit (char_of (8 * octal_val d1 + octal_val d2))], ds2)
                        else Inr ([TLit (char_of (octal_val d1))], ds1))
                 else Inr ([TLit (CHR 0x00)], cs))
          else if is_digit c then
            (case cs of
               [] \<Rightarrow> Inl TemplateError
             | d1 # ds1 \<Rightarrow>
                 if is_digit d1 then
                   (case ds1 of
                      [] \<Rightarrow> Inl TemplateError
                    | d2 # ds2 \<Rightarrow>
                        if is_octal c \<and> is_octal d1 \<and> is_octal d2 then
                          (if 255 < 64 * octal_val c + 8 * octal_val d1 + octal_val d2
                           then Inl TemplateError
                           else Inr ([TLit (char_of (64 * octal_val c + 8 * octal_val d1
                                       + octal_val d2))], ds2))
                        else Inl TemplateError)
                 else Inl TemplateError)
          else
            (case escape_char c of
               Some e \<Rightarrow> Inr ([TLit e], cs)
             | None \<Rightarrow>
                 if is_ascii_letter c then Inl TemplateError
                 else Inr ([TLit (CHR 0x5C), TLit c], cs)))"

text \<open>The first character or escape of a template that is not empty.\<close>

definition template_step :: "string \<Rightarrow> py_exc + (tpl_piece list \<times> string)" where
  "template_step s =
     (case s of
        [] \<Rightarrow> Inr ([], [])
      | c # cs \<Rightarrow> if c = CHR 0x5C then template_escape cs else Inr ([TLit c], cs))"

lemma tl_dropWhile_length:
  "length (dropWhile P xs) - Suc 0 \<le> length xs"
  using length_dropWhile_le [of P xs] by simp

lemma template_escape_shorter:
  "template_escape s = Inr (ps, rest) \<Longrightarrow> length rest < length s"
  using tl_dropWhile_length [of "\<lambda>x. x \<noteq> CHR ''>''"]
  by (auto simp: template_escape_def Let_def le_imp_less_Suc less_Suc_eq_le le_Suc_eq
        split: list.splits if_splits option.splits)

lemma template_step_shorter:
  "s \<noteq> [] \<Longrightarrow> template_step s = Inr (ps, rest) \<Longrightarrow> length rest < length s"
  by (auto simp: template_step_def split: list.splits if_splits
        dest: template_escape_shorter)

function parse_template :: "string \<Rightarrow> py_exc + tpl_piece list" where
  "parse_template s =
     (if s = [] then Inr []
      else
        (case template_step s of
           Inl e \<Rightarrow> Inl e
         | Inr (ps, rest) \<Rightarrow>
             (case parse_template rest of
                Inl e \<Rightarrow> Inl e
              | Inr qs \<Rightarrow> Inr (ps @ qs))))"
  by pat_completeness auto
termination
  by (relation "measure length") (auto dest: template_step_shorter)

declare parse_template.simps [simp del]

text \<open>What a parsed template stands for at one match.\<close>

definition expand_template :: "tpl_piece list \<Rightarrow> string \<Rightarrow> string" where
  "expand_template ps matched =
     concat (map (\<lambda>p. case p of TLit c \<Rightarrow> [c] | TGroup0 \<Rightarrow> matched) ps)"

text \<open>
  The leftmost occurrence of a text \<open>pat\<close> in \<open>s\<close>: the text before it and the text
  after it.
\<close>

fun find_literal :: "string \<Rightarrow> string \<Rightarrow> (string \<times> string) option" where
  "find_literal pat [] = (if pat = [] then Some ([], []) else None)"
| "find_literal pat (c # cs) =
     (if take (length pat) (c # cs) = pat then Some ([], drop (length pat) (c # cs))
      else map_option (\<lambda>(pre, post). (c # pre, post)) (find_literal pat cs))"

lemma find_literal_length:
  "find_literal pat s = Some (pre, post) \<Longrightarrow> length s = length pre + length pat + length post"
proof (induction s arbitrary: pre)
  case Nil
  then show ?case by (simp split: if_splits)
next
  case (Cons c cs)
  show ?case
  proof (cases "take (length pat) (c # cs) = pat")
    case True
    with Cons.prems have "pre = []" "post = drop (length pat) (c # cs)" by simp_all
    moreover from True have "length (take (length pat) (c # cs)) = length pat"
      by simp
    then have "length pat \<le> length (c # cs)"
      by (simp only: length_take min_def split: if_splits)
    ultimately show ?thesis by simp
  next
    case False
    with Cons.prems obtain pre' where
      r: "find_literal pat cs = Some (pre', post)" and p: "pre = c # pre'"
      by (cases "find_literal pat cs") auto
    from Cons.IH [OF r] p show ?thesis by simp
  qed
qed

text \<open>
  The replacement loop of \<^verbatim>\<open>re.sub(r"\{" + re.escape(nm) + r"\}", repl, s)\<close>: every
  occurrence of the token, left to right, each search starting behind the occurrence
  before it.
\<close>

function sub_named :: "string \<Rightarrow> tpl_piece list \<Rightarrow> string \<Rightarrow> string" where
  "sub_named nm ps s =
     (case find_literal (CHR ''{'' # nm @ ''}'') s of
        None \<Rightarrow> s
      | Some (pre, post) \<Rightarrow>
          pre @ expand_template ps (CHR ''{'' # nm @ ''}'') @ sub_named nm ps post)"
  by pat_completeness auto
termination
  by (relation "measure (\<lambda>(nm, ps, s). length s)") (auto dest: find_literal_length)

declare sub_named.simps [simp del]

text \<open>The replacement loop of \<^verbatim>\<open>re.sub(r"\{[^}]+\}", repl, s)\<close>.\<close>

function sub_placeholders :: "tpl_piece list \<Rightarrow> string \<Rightarrow> string" where
  "sub_placeholders ps s =
     (case find_placeholder s of
        None \<Rightarrow> s
      | Some (pre, g, post) \<Rightarrow>
          pre @ expand_template ps (CHR ''{'' # g @ ''}'') @ sub_placeholders ps post)"
  by pat_completeness auto
termination
  by (relation "measure (\<lambda>(ps, s). length s)") (auto dest: find_placeholder_length)

declare sub_placeholders.simps [simp del]

text \<open>
  The two calls of \<^verbatim>\<open>re.sub\<close> in the source. The template is parsed before the
  first search, so a template that does not parse raises even when nothing matches.
\<close>

definition re_sub_named :: "string \<Rightarrow> string \<Rightarrow> string \<Rightarrow> py_exc + string" where
  "re_sub_named nm repl s =
     (case parse_template repl of
        Inl e \<Rightarrow> Inl e
      | Inr ps \<Rightarrow> Inr (sub_named nm ps s))"

definition re_sub_placeholders :: "string \<Rightarrow> string \<Rightarrow> py_exc + string" where
  "re_sub_placeholders repl s =
     (case parse_template repl of
        Inl e \<Rightarrow> Inl e
      | Inr ps \<Rightarrow> Inr (sub_placeholders ps s))"

section \<open>The request layer\<close>

subsection \<open>The command catalog\<close>

datatype cmd_mode = GET | SET

text \<open>
  \<^verbatim>\<open>class ScpiCommand\<close>; the fields are \<^verbatim>\<open>name\<close>, \<^verbatim>\<open>cmd\<close>, \<^verbatim>\<open>mode\<close> and
  \<^verbatim>\<open>parameters_raw\<close> of the command \<^verbatim>\<open>c\<close>. The loader keeps only the rows whose
  mode is \<^verbatim>\<open>GET\<close> or \<^verbatim>\<open>SET\<close>.
\<close>

record ScpiCommand =
  c_name :: string
  c_cmd :: string
  c_mode :: cmd_mode
  c_parameters_raw :: string

text \<open>
  \<^verbatim>\<open>SCPI_DEFS.get(model, [])\<close>. The catalog \<^verbatim>\<open>SCPI_DEFS\<close> is read from a spreadsheet
  at start-up and is a parameter here; its keys are texts, so a model that is None
  has no commands.
\<close>

definition catalog_get :: "(string \<Rightarrow> ScpiCommand list option) \<Rightarrow> string option \<Rightarrow> ScpiCommand list" where
  "catalog_get SCPI_DEFS m =
     (case m of
        None \<Rightarrow> []
      | Some k \<Rightarrow> (case SCPI_DEFS k of None \<Rightarrow> [] | Some cmds \<Rightarrow> cmds))"

subsection \<open>Building the command\<close>

text \<open>
  What a request can answer besides a result: the 400 and 404 answers of the
  source, \<open>Raised\<close> for an exception caught by the \<^verbatim>\<open>try\<close> of the route (answer
  500), and \<open>Unhandled\<close> for an exception outside it.
\<close>

datatype api_error =
    MissingAliasOrName
  | MissingAliasOrCmd
  | AliasNotFound
  | CommandNotFound string "string option"
  | ValuesNotDict
  | MissingValue string
  | Raised py_exc
  | Unhandled py_exc

text \<open>
  The \<^verbatim>\<open>values\<close> of a request: absent, an object, or something else. An object is
  the list of its keys, in insertion order, each with \<^verbatim>\<open>str\<close> of its value.
\<close>

datatype jvalues = JNone | JDict "(string \<times> string) list" | JOther

text \<open>
  The \<^verbatim>\<open>for d in param_defs\<close> loop of \<^verbatim>\<open>api_run\<close>, the same in the GET and in the
  SET branch; the last argument is \<^verbatim>\<open>cmd_to_send\<close>.
\<close>

fun substitute_params :: "ParamDef list \<Rightarrow> (string \<times> string) list \<Rightarrow> string \<Rightarrow> api_error + string" where
  "substitute_params [] vals cmd_to_send = Inr cmd_to_send"
| "substitute_params (d # ds) vals cmd_to_send =
     (case map_of vals (name d) of
        None \<Rightarrow> Inl (MissingValue (name d))
      | Some raw \<Rightarrow>
          if strip raw = [] then Inl (MissingValue (name d))
          else
            (case (if kind d = FREE then apply_format_spec (strip raw) (format_spec d)
                   else Inr (strip raw)) of
               Inl e \<Rightarrow> Inl (Raised e)
             | Inr v \<Rightarrow>
                 (case re_sub_named (name d) v cmd_to_send of
                    Inl e \<Rightarrow> Inl (Raised e)
                  | Inr cmd' \<Rightarrow> substitute_params ds vals cmd')))"

text \<open>
  The fallback after the loop: when a placeholder is left and the values are not
  empty, every placeholder is replaced with \<^verbatim>\<open>first_v\<close>, the trimmed first value.
\<close>

definition fill_remaining :: "(string \<times> string) list \<Rightarrow> string \<Rightarrow> api_error + string" where
  "fill_remaining vals cmd_to_send =
     (if find_placeholder cmd_to_send \<noteq> None \<and> vals \<noteq> [] then
        (case re_sub_placeholders (strip (snd (hd vals))) cmd_to_send of
           Inl e \<Rightarrow> Inl (Raised e)
         | Inr cmd' \<Rightarrow> Inr cmd')
      else Inr cmd_to_send)"

definition build_command :: "ParamDef list \<Rightarrow> (string \<times> string) list \<Rightarrow> string \<Rightarrow> api_error + string" where
  "build_command param_defs vals cmd_to_send =
     (case substitute_params param_defs vals cmd_to_send of
        Inl e \<Rightarrow> Inl e
      | Inr cmd' \<Rightarrow> fill_remaining vals cmd')"

subsection \<open>The routes\<close>

text \<open>
  The state of the application: the one \<^verbatim>\<open>upyvisa\<close> manager, created on first
  use, with its collection, and the events on the transport so far.
\<close>

record app =
  mgr :: "Instrument list option"
  events :: "event list"

text \<open>
  \<^verbatim>\<open>_get_mgr\<close>: the constructor of \<^verbatim>\<open>upyvisa\<close> runs a discovery; when that raises,
  no manager is stored.
\<close>

definition get_mgr :: "transport \<Rightarrow> app \<Rightarrow> (py_exc + Instrument list) \<times> app" where
  "get_mgr T st =
     (case mgr st of
        Some insts \<Rightarrow> (Inr insts, st)
      | None \<Rightarrow>
          (case find_instruments T [] (events st) of
             (Inl e, coll, evs) \<Rightarrow> (Inl e, st\<lparr>events := evs\<rparr>)
           | (Inr u, coll, evs) \<Rightarrow> (Inr coll, \<lparr>mgr = Some coll, events = evs\<rparr>)))"

text \<open>The alias test of \<^verbatim>\<open>api_run\<close>: \<^verbatim>\<open>(i.alias or "").casefold() == alias.casefold()\<close>.\<close>

definition api_alias_matches :: "string \<Rightarrow> Instrument \<Rightarrow> bool" where
  "api_alias_matches a inst \<longleftrightarrow>
     casefold (case alias inst of None \<Rightarrow> [] | Some ia \<Rightarrow> ia) = casefold a"

text \<open>
  The values that the loop reads: a single value stands for the only parameter when
  no object was sent; no values at all are the empty object; anything but an object
  is refused (None here).
\<close>

definition effective_values :: "jvalues \<Rightarrow> string \<Rightarrow> ParamDef list \<Rightarrow> (string \<times> string) list option" where
  "effective_values vals single_value param_defs =
     (case (if vals = JNone \<and> single_value \<noteq> [] \<and> length param_defs = 1
            then JDict [(name (hd param_defs), single_value)] else vals) of
        JNone \<Rightarrow> Some []
      | JDict kvs \<Rightarrow> Some kvs
      | JOther \<Rightarrow> None)"

text \<open>
  The \<^verbatim>\<open>try\<close> block of \<^verbatim>\<open>api_run\<close>: build the command, then query (GET) or write
  (SET). Without parameter definitions the template is sent as it is.
\<close>

definition dispatch ::
  "transport \<Rightarrow> Instrument list \<Rightarrow> string \<Rightarrow> ScpiCommand \<Rightarrow> ParamDef list \<Rightarrow> (string \<times> string) list
     \<Rightarrow> app \<Rightarrow> (api_error + cmd_mode \<times> string \<times> string) \<times> app" where
  "dispatch T insts al c param_defs vals st =
     (case (if param_defs = [] then Inr (strip (c_cmd c))
            else build_command param_defs vals (strip (c_cmd c))) of
        Inl e \<Rightarrow> (Inl e, st)
      | Inr cmd_to_send \<Rightarrow>
          (case c_mode c of
             GET \<Rightarrow>
               (case upyvisa_query T insts al cmd_to_send (events st) of
                  (Inl e, evs) \<Rightarrow> (Inl (Raised e), st\<lparr>events := evs\<rparr>)
                | (Inr resp, evs) \<Rightarrow> (Inr (GET, cmd_to_send, resp), st\<lparr>events := evs\<rparr>))
           | SET \<Rightarrow>
               (case upyvisa_write T insts al cmd_to_send (events st) of
                  (Inl e, evs) \<Rightarrow> (Inl (Raised e), st\<lparr>events := evs\<rparr>)
                | (Inr u, evs) \<Rightarrow> (Inr (SET, cmd_to_send, []), st\<lparr>events := evs\<rparr>))))"

text \<open>
  \<^verbatim>\<open>api_run\<close>. The arguments after the catalog are the fields \<^verbatim>\<open>alias\<close>, \<^verbatim>\<open>name\<close>,
  \<^verbatim>\<open>values\<close> and \<^verbatim>\<open>value\<close> of the request; a field that is absent or empty is None,
  and \<^verbatim>\<open>value\<close> is given by its \<^verbatim>\<open>str\<close>. The result is the mode, the command sent
  and the response.
\<close>

definition api_run ::
  "transport \<Rightarrow> (string \<Rightarrow> ScpiCommand list option) \<Rightarrow> string option \<Rightarrow> string option \<Rightarrow> jvalues
     \<Rightarrow> string option \<Rightarrow> app \<Rightarrow> (api_error + cmd_mode \<times> string \<times> string) \<times> app" where
  "api_run T SCPI_DEFS alias_in name_in values_in value_in st =
     (let al = strip (case alias_in of None \<Rightarrow> [] | Some x \<Rightarrow> x);
          cmd_name = strip (case name_in of None \<Rightarrow> [] | Some x \<Rightarrow> x);
          single_value = strip (case value_in of None \<Rightarrow> [] | Some x \<Rightarrow> x)
      in if al = [] \<or> cmd_name = [] then (Inl MissingAliasOrName, st)
         else
           (case get_mgr T st of
              (Inl e, st1) \<Rightarrow> (Inl (Unhandled e), st1)
            | (Inr insts, st1) \<Rightarrow>
                (case find (api_alias_matches al) insts of
                   None \<Rightarrow> (Inl AliasNotFound, st1)
                 | Some inst \<Rightarrow>
                     (case find (\<lambda>x. casefold (c_name x) = casefold cmd_name)
                             (catalog_get SCPI_DEFS (model inst)) of
                        None \<Rightarrow> (Inl (CommandNotFound cmd_name (model inst)), st1)
                      | Some c \<Rightarrow>
                          (case effective_values values_in single_value
                                  (parse_param_defs (Some (c_parameters_raw c)) (Some (c_cmd c))) of
                             None \<Rightarrow> (Inl ValuesNotDict, st1)
                           | Some vals \<Rightarrow>
                               dispatch T insts al c
                                 (parse_param_defs (Some (c_parameters_raw c)) (Some (c_cmd c)))
                                 vals st1)))))"

text \<open>
  \<^verbatim>\<open>api_custom\<close>: a command with a question mark is a query, any other a write.
  The result is the command sent and the response.
\<close>

definition api_custom ::
  "transport \<Rightarrow> string option \<Rightarrow> string option \<Rightarrow> app \<Rightarrow> (api_error + string \<times> string) \<times> app" where
  "api_custom T alias_in cmd_in st =
     (let al = strip (case alias_in of None \<Rightarrow> [] | Some x \<Rightarrow> x);
          cm = strip (case cmd_in of None \<Rightarrow> [] | Some x \<Rightarrow> x)
      in if al = [] \<or> cm = [] then (Inl MissingAliasOrCmd, st)
         else
           (case get_mgr T st of
              (Inl e, st1) \<Rightarrow> (Inl (Unhandled e), st1)
            | (Inr insts, st1) \<Rightarrow>
                if CHR ''?'' \<in> set cm then
                  (case upyvisa_query T insts al cm (events st1) of
                     (Inl e, evs) \<Rightarrow> (Inl (Raised e), st1\<lparr>events := evs\<rparr>)
                   | (Inr resp, evs) \<Rightarrow> (Inr (cm, resp), st1\<lparr>events := evs\<rparr>))
                else
                  (case upyvisa_write T insts al cm (events st1) of
                     (Inl e, evs) \<Rightarrow> (Inl (Raised e), st1\<lparr>events := evs\<rparr>)
                   | (Inr u, evs) \<Rightarrow> (Inr (cm, []), st1\<lparr>events := evs\<rparr>))))"

section \<open>A bench for the examples\<close>

text \<open>
  A transport with three resources: a multimeter whose identity response has two
  parts, a power supply on a serial line, and a resource that cannot be opened; and
  the two instruments that discovery finds there.
\<close>

definition bench :: transport where
  "bench =
     \<lparr>list_resources = (\<lambda>evs. Inr [''GPIB0::5::INSTR'', ''ASRL3::INSTR'', ''USB0::1::INSTR'']),
      open_resource = (\<lambda>evs r. if r = ''USB0::1::INSTR'' then Some (Failure ''busy'') else None),
      write_prim = (\<lambda>evs r c. None),
      read_prim = (\<lambda>evs r. if r = ''ASRL3::INSTR'' then Inr ''ACME, PSU-30 ,SN 001,1.0''
                             else Inr ''KEITHLEY DMM6500'')\<rparr>"

definition psu :: Instrument where
  "psu = \<lparr>visa_name = ''ASRL3::INSTR'', dev_kind = SERIAL_115200_LF, vendor = Some ''ACME'',
           model = Some ''PSU-30'', serial = Some ''SN 001 1.0'', alias = None\<rparr>"

definition dmm :: Instrument where
  "dmm = \<lparr>visa_name = ''GPIB0::5::INSTR'', dev_kind = VISA, vendor = Some ''KEITHLEY'',
           model = Some ''DMM6500'', serial = None, alias = None\<rparr>"

text \<open>
  A catalog with three commands for the power supply, and the application once the
  power supply has the alias \<^verbatim>\<open>supply\<close>.
\<close>

definition catalog :: "string \<Rightarrow> ScpiCommand list option" where
  "catalog m =
     (if m = ''PSU-30'' then
        Some [\<lparr>c_name = ''SETV'', c_cmd = ''VOLT {value}'', c_mode = SET, c_parameters_raw = []\<rparr>,
              \<lparr>c_name = ''LOAD'', c_cmd = ''MMEM:LOAD {file},{slot}'', c_mode = SET,
                 c_parameters_raw = ''file|slot''\<rparr>,
              \<lparr>c_name = ''MEAS'', c_cmd = ''MEAS:{what}? {ch}'', c_mode = GET,
                 c_parameters_raw = ''what:VOLT;CURR''\<rparr>]
      else None)"

definition lab :: app where
  "lab = \<lparr>mgr = Some [dmm, psu\<lparr>alias := Some ''supply''\<rparr>], events = []\<rparr>"

section \<open>Properties of the parser\<close>

lemma parse_parts_acc:
  "parse_parts parts (out1 @ out2) = out1 @ parse_parts parts out2"
  by (induction parts arbitrary: out2) (simp_all add: Let_def)

lemma parse_parts_single:
  "parse_parts parts [d] = d # parse_parts parts []"
  using parse_parts_acc [of parts "[d]" "[]"] by simp

lemma parse_parts_spec:
  "parse_parts parts [] = map spec_part_def (filter (\<lambda>p. p \<noteq> []) parts)"
proof (induction parts)
  case Nil
  show ?case by simp
next
  case (Cons part parts)
  show ?case
  proof (cases "part = []")
    case True
    with Cons show ?thesis by simp
  next
    case False
    have step: "parse_parts (part # parts) [] = spec_part_def part # parse_parts parts []"
      using False
      by (simp add: Let_def spec_part_def_def spec_tokens_def split_once_def parse_parts_single)
    with False Cons show ?thesis by simp
  qed
qed

text \<open>
  C1. A raw specification that, trimmed, is neither empty nor \<^verbatim>\<open>nan\<close> nor \<^verbatim>\<open>none\<close>
  in any letter case yields one parameter definition for each non-empty trimmed part
  between \<^verbatim>\<open>|\<close>, in the order of the parts, and each is the definition the grammar
  gives that part: without a colon a FREE parameter named by the part, with a colon
  the name before the first colon and either the options between \<^verbatim>\<open>;\<close> or the
  format specification after it.
\<close>

theorem parse_param_defs_parts:
  assumes "strip raw \<noteq> []" and "lower (strip raw) \<notin> {''nan'', ''none''}"
  shows "parse_param_defs (Some raw) cmd_template = map spec_part_def (spec_parts raw)
       \<and> length (parse_param_defs (Some raw) cmd_template) = length (spec_parts raw)"
proof -
  from assms have "parse_param_defs (Some raw) cmd_template
      = parse_parts (map strip (split CHR ''|'' (strip raw))) []"
    by (simp add: parse_param_defs_def)
  then have "parse_param_defs (Some raw) cmd_template = map spec_part_def (spec_parts raw)"
    by (simp add: parse_parts_spec spec_parts_def)
  then show ?thesis by simp
qed

theorem parse_param_defs_parts_witness:
  "parse_param_defs (Some '' MODE : AUTO; MANUAL ;|| CURRENT:V.3f |x|y:'') (Some ''SET {x}'')
     = [\<lparr>name = ''MODE'', kind = OPTIONS, options = [''AUTO'', ''MANUAL''], format_spec = []\<rparr>,
        \<lparr>name = ''CURRENT'', kind = FREE, options = [], format_spec = ''V.3f''\<rparr>,
        \<lparr>name = ''x'', kind = FREE, options = [], format_spec = []\<rparr>,
        \<lparr>name = ''y'', kind = FREE, options = [], format_spec = []\<rparr>]"
proof -
  let ?raw = "'' MODE : AUTO; MANUAL ;|| CURRENT:V.3f |x|y:''"
  have h1: "strip ?raw \<noteq> []" by code_simp
  have h2: "lower (strip ?raw) \<notin> {''nan'', ''none''}" by code_simp
  have e: "map spec_part_def (spec_parts ?raw)
     = [\<lparr>name = ''MODE'', kind = OPTIONS, options = [''AUTO'', ''MANUAL''], format_spec = []\<rparr>,
        \<lparr>name = ''CURRENT'', kind = FREE, options = [], format_spec = ''V.3f''\<rparr>,
        \<lparr>name = ''x'', kind = FREE, options = [], format_spec = []\<rparr>,
        \<lparr>name = ''y'', kind = FREE, options = [], format_spec = []\<rparr>]"
    by code_simp
  from parse_param_defs_parts [OF h1 h2, of "Some ''SET {x}''"] show ?thesis
    by (simp only: e)
qed

subsection \<open>The fallback to the placeholders of the template\<close>

lemma find_placeholder_literal:
  "CHR ''{'' \<notin> set l \<Longrightarrow>
     find_placeholder (l @ r) = map_option (\<lambda>(pre, g, post). (l @ pre, g, post)) (find_placeholder r)"
proof (induction l)
  case Nil
  show ?case by (cases "find_placeholder r") auto
next
  case (Cons c l)
  then have "c \<noteq> CHR ''{''" and IH: "find_placeholder (l @ r)
      = map_option (\<lambda>(pre, g, post). (l @ pre, g, post)) (find_placeholder r)"
    by auto
  then show ?case
    by (cases "find_placeholder r") (auto simp: find_placeholder_Cons)
qed

lemma takeWhile_until:
  "c \<notin> set b \<Longrightarrow> takeWhile (\<lambda>x. x \<noteq> c) (b @ c # r) = b"
  by (induction b) auto

lemma dropWhile_until:
  "c \<notin> set b \<Longrightarrow> dropWhile (\<lambda>x. x \<noteq> c) (b @ c # r) = c # r"
  by (induction b) auto

lemma find_placeholder_hole:
  assumes "b \<noteq> []" and "CHR ''}'' \<notin> set b"
  shows "find_placeholder (CHR ''{'' # b @ CHR ''}'' # r) = Some ([], b, r)"
proof -
  from assms(2) have "takeWhile (\<lambda>x. x \<noteq> CHR ''}'') (b @ CHR ''}'' # r) = b"
    and "dropWhile (\<lambda>x. x \<noteq> CHR ''}'') (b @ CHR ''}'' # r) = CHR ''}'' # r"
    by (simp_all add: takeWhile_until dropWhile_until)
  with assms(1) show ?thesis
    by (simp add: find_placeholder_Cons)
qed

lemma finditer_groups_literal:
  "CHR ''{'' \<notin> set l \<Longrightarrow> finditer_groups (l @ r) = finditer_groups r"
  by (subst (1 2) finditer_groups.simps)
     (simp add: find_placeholder_literal split: option.splits)

lemma finditer_groups_hole:
  "b \<noteq> [] \<Longrightarrow> CHR ''}'' \<notin> set b \<Longrightarrow>
     finditer_groups (CHR ''{'' # b @ CHR ''}'' # r) = b # finditer_groups r"
  by (subst finditer_groups.simps) (simp add: find_placeholder_hole)

lemma finditer_groups_Nil: "finditer_groups [] = []"
  by (subst finditer_groups.simps) simp

lemma finditer_groups_render:
  "well_formed ps \<Longrightarrow> finditer_groups (render ps) = holes ps"
  by (induction ps rule: render.induct)
     (simp_all add: finditer_groups_Nil finditer_groups_literal finditer_groups_hole)

text \<open>
  C5 (amended). A raw specification that, trimmed, is empty or \<^verbatim>\<open>nan\<close> or
  \<^verbatim>\<open>none\<close> in any letter case yields one FREE parameter without format
  specification for every placeholder of the template, left to right, named by the
  trimmed text between the braces. A name that occurs twice yields two parameters.
  The template is given by its pieces: literal text without an opening brace and
  placeholders whose text is not empty and has no closing brace. A template without
  placeholders yields the empty list.
\<close>

theorem parse_param_defs_placeholders:
  assumes "strip raw = [] \<or> lower (strip raw) \<in> {''nan'', ''none''}"
    and "well_formed ps"
  shows "parse_param_defs (Some raw) (Some (render ps))
     = map (\<lambda>b. \<lparr>name = strip b, kind = FREE, options = [], format_spec = []\<rparr>) (holes ps)"
  using assms
  by (auto simp: parse_param_defs_def first_placeholder_names_def finditer_groups_render)

theorem parse_param_defs_placeholders_witness:
  "parse_param_defs (Some '' NaN '') (Some ''OUT{ ch }:VOLT {volt};{ch}?'')
     = [\<lparr>name = ''ch'', kind = FREE, options = [], format_spec = []\<rparr>,
        \<lparr>name = ''volt'', kind = FREE, options = [], format_spec = []\<rparr>,
        \<lparr>name = ''ch'', kind = FREE, options = [], format_spec = []\<rparr>]"
proof -
  let ?ps = "[Lit ''OUT'', Hole '' ch '', Lit '':VOLT '', Hole ''volt'', Lit '';'', Hole ''ch'', Lit ''?'']"
  have h1: "strip '' NaN '' = [] \<or> lower (strip '' NaN '') \<in> {''nan'', ''none''}" by code_simp
  have h2: "well_formed ?ps" by code_simp
  have r: "render ?ps = ''OUT{ ch }:VOLT {volt};{ch}?''" by code_simp
  have e: "map (\<lambda>b. \<lparr>name = strip b, kind = FREE, options = [], format_spec = []\<rparr>) (holes ?ps)
     = [\<lparr>name = ''ch'', kind = FREE, options = [], format_spec = []\<rparr>,
        \<lparr>name = ''volt'', kind = FREE, options = [], format_spec = []\<rparr>,
        \<lparr>name = ''ch'', kind = FREE, options = [], format_spec = []\<rparr>]"
    by code_simp
  from parse_param_defs_placeholders [OF h1 h2] show ?thesis
    by (simp only: r e)
qed

text \<open>
  C5 as stated asks for one parameter per distinct placeholder name. The source does
  not remove duplicates: a template that names \<^verbatim>\<open>ch\<close> twice yields two parameters
  named \<^verbatim>\<open>ch\<close>.
\<close>

theorem parse_param_defs_distinct_counterexample:
  "strip '''' = []
   \<and> parse_param_defs (Some '''') (Some ''OUT{ch}:VOLT {ch}'')
       = [\<lparr>name = ''ch'', kind = FREE, options = [], format_spec = []\<rparr>,
          \<lparr>name = ''ch'', kind = FREE, options = [], format_spec = []\<rparr>]
   \<and> \<not> distinct (map name (parse_param_defs (Some '''') (Some ''OUT{ch}:VOLT {ch}'')))"
  by code_simp

section \<open>Properties of the registry\<close>

subsection \<open>Discovery\<close>

lemma scan_resource_fresh:
  "scan_resource T r evs = (Some x, evs') \<Longrightarrow> alias x = None \<and> visa_name x = r"
  by (auto simp: scan_resource_def Let_def split: option.splits sum.splits if_splits prod.splits)

lemma scan_all_fresh:
  "\<forall>inst \<in> set coll. alias inst = None \<and> visa_name inst \<in> V \<Longrightarrow>
   \<forall>inst \<in> set (fst (scan_all T rs coll evs)). alias inst = None \<and> visa_name inst \<in> V \<union> set rs"
proof (induction rs arbitrary: coll evs V)
  case Nil
  then show ?case by simp
next
  case (Cons r rs)
  obtain res evs' where sr: "scan_resource T r evs = (res, evs')"
    by (cases "scan_resource T r evs")
  show ?case
  proof (cases res)
    case None
    have "\<forall>inst \<in> set coll. alias inst = None \<and> visa_name inst \<in> insert r V"
      using Cons.prems by simp
    from Cons.IH [OF this, of evs'] sr None show ?thesis by simp
  next
    case (Some x)
    with sr scan_resource_fresh have "alias x = None" "visa_name x = r" by blast+
    with Cons.prems
    have "\<forall>inst \<in> set (coll @ [x]). alias inst = None \<and> visa_name inst \<in> insert r V"
      by simp
    from Cons.IH [OF this, of evs'] sr Some show ?thesis by simp
  qed
qed

lemma alias_matches_None: "alias inst = None \<Longrightarrow> \<not> alias_matches a inst"
  by (simp add: alias_matches_def)

lemma resolve_None: "\<forall>inst \<in> set insts. alias inst = None \<Longrightarrow> resolve a insts = None"
  by (induction insts) (simp_all add: resolve_def alias_matches_None)

lemma find_instruments_fresh:
  "\<forall>inst \<in> set (fst (snd (find_instruments T old evs))). alias inst = None"
proof (cases "list_resources T evs")
  case (Inl e)
  then show ?thesis by (simp add: find_instruments_def)
next
  case (Inr rs)
  have "\<forall>inst \<in> set (fst (scan_all T rs [] (evs @ [Listed]))).
          alias inst = None \<and> visa_name inst \<in> {} \<union> set rs"
    by (rule scan_all_fresh) simp
  with Inr show ?thesis
    by (simp add: find_instruments_def split: prod.splits)
qed

lemma casefold_Nil: "casefold a = [] \<longleftrightarrow> a = []"
  by (cases a) (simp_all add: casefold_def casefold_char_def)

lemma api_resolve_None:
  "\<forall>inst \<in> set insts. alias inst = None \<Longrightarrow> a \<noteq> [] \<Longrightarrow>
     find (api_alias_matches a) insts = None"
proof (induction insts)
  case Nil
  show ?case by simp
next
  case (Cons inst rest)
  from Cons.prems have "casefold [] \<noteq> casefold a"
    by (metis casefold_Nil)
  with Cons show ?case
    by (simp add: api_alias_matches_def)
qed

text \<open>
  C6. A discovery scan replaces the whole instrument set: the collection after
  \<^verbatim>\<open>find_instruments\<close> does not depend on the collection before it, every instrument
  in it has no alias, and no alias resolves, whatever was assigned before the scan:
  neither by the test of \<^verbatim>\<open>query\<close> and \<^verbatim>\<open>write\<close> nor, for an alias that is not
  empty, by the test of \<^verbatim>\<open>api_run\<close>.
\<close>

theorem find_instruments_replaces:
  "find_instruments T old evs = find_instruments T [] evs
   \<and> (\<forall>inst \<in> set (fst (snd (find_instruments T old evs))). alias inst = None)
   \<and> (\<forall>a. resolve a (fst (snd (find_instruments T old evs))) = None)
   \<and> (\<forall>a. a \<noteq> [] \<longrightarrow>
          find (api_alias_matches a) (fst (snd (find_instruments T old evs))) = None)"
proof -
  have "find_instruments T old evs = find_instruments T [] evs"
    by (simp add: find_instruments_def)
  moreover note find_instruments_fresh [of T old evs]
  moreover have "\<forall>a. resolve a (fst (snd (find_instruments T old evs))) = None"
    using find_instruments_fresh [of T old evs] by (simp add: resolve_None)
  moreover have "\<forall>a. a \<noteq> [] \<longrightarrow>
      find (api_alias_matches a) (fst (snd (find_instruments T old evs))) = None"
    using find_instruments_fresh [of T old evs] by (simp add: api_resolve_None)
  ultimately show ?thesis by blast
qed

theorem find_instruments_replaces_witness:
  "resolve ''supply'' [psu\<lparr>alias := Some ''supply''\<rparr>] = Some (psu\<lparr>alias := Some ''supply''\<rparr>)
   \<and> fst (snd (find_instruments bench [psu\<lparr>alias := Some ''supply''\<rparr>] [])) = [dmm, psu]
   \<and> alias psu = None \<and> alias dmm = None
   \<and> resolve ''supply'' (fst (snd (find_instruments bench [psu\<lparr>alias := Some ''supply''\<rparr>] []))) = None
   \<and> find (api_alias_matches ''supply'')
         (fst (snd (find_instruments bench [psu\<lparr>alias := Some ''supply''\<rparr>] []))) = None"
proof -
  have before: "resolve ''supply'' [psu\<lparr>alias := Some ''supply''\<rparr>] = Some (psu\<lparr>alias := Some ''supply''\<rparr>)"
    by code_simp
  have scan: "fst (snd (find_instruments bench [psu\<lparr>alias := Some ''supply''\<rparr>] [])) = [dmm, psu]"
    by code_simp
  have name: "''supply'' \<noteq> []" by simp
  from find_instruments_replaces [of bench "[psu\<lparr>alias := Some ''supply''\<rparr>]" "[]"]
  have "\<forall>inst \<in> set [dmm, psu]. alias inst = None"
    and "resolve ''supply'' (fst (snd (find_instruments bench [psu\<lparr>alias := Some ''supply''\<rparr>] []))) = None"
    and "''supply'' \<noteq> [] \<longrightarrow> find (api_alias_matches ''supply'')
         (fst (snd (find_instruments bench [psu\<lparr>alias := Some ''supply''\<rparr>] []))) = None"
    unfolding scan by blast+
  with before scan name show ?thesis by simp
qed

subsection \<open>Queries by alias\<close>

lemma query_loop_each:
  "query_loop T insts a cmd acc evs =
     (case query_each T (filter (alias_matches a) insts) cmd evs of
        (Inl e, evs') \<Rightarrow> (Inl e, evs')
      | (Inr responses, evs') \<Rightarrow> (Inr (concat (rev responses) @ acc), evs'))"
proof (induction insts arbitrary: acc evs)
  case Nil
  show ?case by simp
next
  case (Cons inst rest)
  show ?case
  proof (cases "alias_matches a inst")
    case False
    with Cons show ?thesis by simp
  next
    case True
    obtain res evs1 where q: "instrument_query T inst cmd evs = (res, evs1)"
      by (cases "instrument_query T inst cmd evs")
    show ?thesis
    proof (cases res)
      case (Inl e)
      with True q show ?thesis by simp
    next
      case (Inr response)
      with True q Cons.IH [of "response @ acc" evs1] show ?thesis
        by (simp split: prod.splits sum.splits)
    qed
  qed
qed

text \<open>
  C7. \<^verbatim>\<open>query(alias, command)\<close> queries every instrument whose alias equals the
  given one after trimming and case folding, in the order of the collection, and
  returns the concatenation of their responses, the response of a later instrument
  before that of an earlier one; an individual query that raises ends the call with
  that exception. When no instrument matches, the result is the empty text and
  nothing is sent to the transport.
\<close>

theorem upyvisa_query_concat:
  "upyvisa_query T insts a cmd evs =
     (case query_each T (filter (alias_matches a) insts) cmd evs of
        (Inl e, evs') \<Rightarrow> (Inl e, evs')
      | (Inr responses, evs') \<Rightarrow> (Inr (concat (rev responses)), evs'))
   \<and> (filter (alias_matches a) insts = [] \<longrightarrow> upyvisa_query T insts a cmd evs = (Inr [], evs))"
proof -
  have eq: "upyvisa_query T insts a cmd evs =
     (case query_each T (filter (alias_matches a) insts) cmd evs of
        (Inl e, evs') \<Rightarrow> (Inl e, evs')
      | (Inr responses, evs') \<Rightarrow> (Inr (concat (rev responses)), evs'))"
    unfolding upyvisa_query_def query_loop_each [of T insts a cmd "[]" evs]
    by (simp split: prod.splits sum.splits)
  moreover have "filter (alias_matches a) insts = [] \<longrightarrow> upyvisa_query T insts a cmd evs = (Inr [], evs)"
    unfolding eq by simp
  ultimately show ?thesis by blast
qed

subsection \<open>Alias assignment\<close>

lemma identity_matches_alias [simp]:
  "identity_matches (inst\<lparr>alias := x\<rparr>) v m s = identity_matches inst v m s"
  by (simp add: identity_matches_def split: option.splits)

lemma set_alias_twice:
  "set_alias a v m s (snd (set_alias a v m s insts)) = set_alias a v m s insts"
proof (induction insts)
  case Nil
  show ?case by simp
next
  case (Cons inst rest)
  show ?case
  proof (cases "identity_matches inst v m s")
    case (Inl e)
    then show ?thesis by simp
  next
    case (Inr b)
    show ?thesis
    proof (cases b)
      case True
      with Inr show ?thesis by simp
    next
      case False
      with Inr Cons.IH show ?thesis
        by (cases "set_alias a v m s rest") simp
    qed
  qed
qed

text \<open>
  C8. \<^verbatim>\<open>set_alias\<close> is idempotent: a second call with the same arguments returns
  what the first call returned (or raises what it raised) and leaves the collection
  as the first call left it, so the alias resolves to the same instrument.
\<close>

theorem set_alias_idempotent:
  "set_alias a v m s (snd (set_alias a v m s insts)) = set_alias a v m s insts
   \<and> resolve a (snd (set_alias a v m s (snd (set_alias a v m s insts))))
       = resolve a (snd (set_alias a v m s insts))"
  by (simp add: set_alias_twice)

subsection \<open>When alias assignment raises\<close>

lemma identity_matches_total:
  "has_identity inst \<Longrightarrow> \<exists>b. identity_matches inst v m s = Inr b"
  by (auto simp: has_identity_def identity_matches_def)

lemma set_alias_total:
  "\<forall>inst \<in> set insts. has_identity inst \<Longrightarrow>
     fst (set_alias a v m s insts) = Inr 1 \<or> fst (set_alias a v m s insts) = Inr (- 1)"
proof (induction insts)
  case Nil
  show ?case by simp
next
  case (Cons inst rest)
  then obtain b where b: "identity_matches inst v m s = Inr b"
    using identity_matches_total [of inst v m s] by auto
  show ?case
  proof (cases b)
    case True
    with b show ?thesis by simp
  next
    case False
    with b Cons show ?thesis
      by (cases "set_alias a v m s rest") simp
  qed
qed

lemma set_alias_next:
  "identity_matches inst v m s = Inr False \<Longrightarrow>
     fst (set_alias a v m s (inst # rest)) = fst (set_alias a v m s rest)"
  by (cases "set_alias a v m s rest") simp

lemma set_alias_skip:
  "\<forall>j \<in> set pre. identity_matches j v m s = Inr False \<Longrightarrow>
     fst (set_alias a v m s (pre @ rest)) = fst (set_alias a v m s rest)"
  by (induction pre) (simp_all add: case_prod_beta)

lemma set_alias_raises_iff:
  "fst (set_alias a v m s insts) = Inl e \<longleftrightarrow>
     (\<exists>pre inst post. insts = pre @ inst # post
        \<and> (\<forall>j \<in> set pre. identity_matches j v m s = Inr False)
        \<and> identity_matches inst v m s = Inl e)"
  (is "?L insts \<longleftrightarrow> ?R insts")
proof
  show "?L insts \<Longrightarrow> ?R insts"
  proof (induction insts)
    case Nil
    then show ?case by simp
  next
    case (Cons inst rest)
    show ?case
    proof (cases "identity_matches inst v m s")
      case (Inl e')
      with Cons.prems have "e' = e" by simp
      with Inl have "inst # rest = [] @ inst # rest
          \<and> (\<forall>j \<in> set []. identity_matches j v m s = Inr False)
          \<and> identity_matches inst v m s = Inl e"
        by simp
      then show ?thesis by blast
    next
      case (Inr b)
      show ?thesis
      proof (cases b)
        case True
        with Inr Cons.prems show ?thesis by simp
      next
        case False
        with Inr Cons.prems have "fst (set_alias a v m s rest) = Inl e"
          by (simp add: case_prod_beta)
        from Cons.IH [OF this] obtain pre i post where
          "rest = pre @ i # post" "\<forall>j \<in> set pre. identity_matches j v m s = Inr False"
          "identity_matches i v m s = Inl e"
          by blast
        with Inr False have "inst # rest = (inst # pre) @ i # post
            \<and> (\<forall>j \<in> set (inst # pre). identity_matches j v m s = Inr False)
            \<and> identity_matches i v m s = Inl e"
          by simp
        then show ?thesis by blast
      qed
    qed
  qed
next
  assume "?R insts"
  then obtain pre inst post where
    "insts = pre @ inst # post" "\<forall>j \<in> set pre. identity_matches j v m s = Inr False"
    "identity_matches inst v m s = Inl e"
    by blast
  then show "?L insts"
    by (simp add: set_alias_skip)
qed

text \<open>A serial number that no instrument of a list has.\<close>

lemma lower_char_x: "lower_char CHR ''x'' = CHR ''x''"
  by code_simp

lemma strip_replicate_x: "strip (replicate n CHR ''x'') = replicate n CHR ''x''"
proof -
  have "\<not> is_space CHR ''x''" by code_simp
  then have "dropWhile is_space (replicate n CHR ''x'') = replicate n CHR ''x''"
    by (cases n) simp_all
  then show ?thesis by (simp add: strip_def)
qed

lemma casefold_replicate_x: "casefold (replicate n CHR ''x'') = replicate n CHR ''x''"
  by (induction n) (simp_all add: casefold_def casefold_char_def lower_char_x)

lemma fresh_serial:
  "\<exists>s. \<forall>k \<in> set insts. \<forall>z. serial k = Some z \<longrightarrow> casefold (strip z) \<noteq> casefold (strip s)"
proof -
  let ?f = "\<lambda>k. case serial k of None \<Rightarrow> 0 | Some z \<Rightarrow> length (casefold (strip z))"
  let ?n = "Suc (sum_list (map ?f insts))"
  let ?s = "replicate ?n CHR ''x''"
  have "casefold (strip z) \<noteq> casefold (strip ?s)" if "k \<in> set insts" "serial k = Some z" for k z
  proof -
    from that(1) have "?f k \<le> sum_list (map ?f insts)"
      by (simp add: member_le_sum_list)
    with that(2) have "length (casefold (strip z)) < ?n" by simp
    moreover have "length (casefold (strip ?s)) = ?n"
      by (simp only: strip_replicate_x casefold_replicate_x length_replicate)
    ultimately show ?thesis by auto
  qed
  then show ?thesis by blast
qed

lemma identity_matches_raise:
  assumes "\<not> has_identity inst"
  shows "identity_matches inst (case vendor inst of None \<Rightarrow> [] | Some x \<Rightarrow> x)
           (case model inst of None \<Rightarrow> [] | Some y \<Rightarrow> y) s = Inl AttributeError"
  using assms by (auto simp: has_identity_def identity_matches_def split: option.splits)

lemma identity_matches_other_serial:
  assumes "has_identity inst"
    and "\<forall>z. serial inst = Some z \<longrightarrow> casefold (strip z) \<noteq> casefold (strip s)"
  shows "identity_matches inst v m s = Inr False"
  using assms by (auto simp: has_identity_def identity_matches_def split: option.splits)

lemma set_alias_can_raise_for:
  "\<not> (\<forall>inst \<in> set insts. has_identity inst) \<Longrightarrow>
     \<exists>v m. \<forall>s. (\<forall>k \<in> set insts. \<forall>z. serial k = Some z \<longrightarrow> casefold (strip z) \<noteq> casefold (strip s))
        \<longrightarrow> fst (set_alias a v m s insts) = Inl AttributeError"
proof (induction insts)
  case Nil
  then show ?case by simp
next
  case (Cons inst rest)
  show ?case
  proof (cases "has_identity inst")
    case False
    from identity_matches_raise [OF False] show ?thesis
      by (metis fst_conv set_alias.simps(2) sum.simps(5))
  next
    case True
    with Cons.prems have "\<not> (\<forall>i \<in> set rest. has_identity i)" by simp
    from Cons.IH [OF this] obtain v m where
      vm: "\<And>s. (\<forall>k \<in> set rest. \<forall>z. serial k = Some z \<longrightarrow> casefold (strip z) \<noteq> casefold (strip s))
              \<Longrightarrow> fst (set_alias a v m s rest) = Inl AttributeError"
      by blast
    have "fst (set_alias a v m s (inst # rest)) = Inl AttributeError"
      if s: "\<forall>k \<in> set (inst # rest). \<forall>z. serial k = Some z \<longrightarrow> casefold (strip z) \<noteq> casefold (strip s)"
      for s
    proof -
      from s True have "identity_matches inst v m s = Inr False"
        by (simp add: identity_matches_other_serial)
      moreover from s have "fst (set_alias a v m s rest) = Inl AttributeError"
        by (intro vm) simp
      ultimately show ?thesis by (simp add: case_prod_beta)
    qed
    then show ?thesis by blast
  qed
qed

lemma set_alias_can_raise:
  assumes "\<not> (\<forall>inst \<in> set insts. has_identity inst)"
  shows "\<exists>v m s. fst (set_alias a v m s insts) = Inl AttributeError"
proof -
  from set_alias_can_raise_for [OF assms] obtain v m where
    vm: "\<And>s. (\<forall>k \<in> set insts. \<forall>z. serial k = Some z \<longrightarrow> casefold (strip z) \<noteq> casefold (strip s))
            \<Longrightarrow> fst (set_alias a v m s insts) = Inl AttributeError"
    by blast
  from fresh_serial obtain s where
    "\<forall>k \<in> set insts. \<forall>z. serial k = Some z \<longrightarrow> casefold (strip z) \<noteq> casefold (strip s)"
    by blast
  from vm [OF this] show ?thesis by blast
qed

lemma parse_idn_few_parts:
  assumes "count_list response CHR '','' < 3" and "length (split_ws response) < 3"
  shows "snd (snd (parse_idn response)) = None"
  using assms by (simp add: parse_idn_def Let_def)

lemma parse_idn_one_part:
  assumes "count_list response CHR '','' < 3" and "length (split_ws response) < 2"
  shows "fst (snd (parse_idn response)) = None"
  using assms by (simp add: parse_idn_def Let_def)

text \<open>
  C9 (amended). \<^verbatim>\<open>set_alias\<close> returns 1 or -1 for all arguments exactly when
  every instrument of the collection has a vendor, a model and a serial. It raises
  exactly when the loop reaches, past instruments that do not match, an instrument on
  which the comparison raises: one without vendor, or one whose vendor matches and
  that has no model, or one whose vendor and model match and that has no serial.
  Discovery produces an instrument without serial from an identity response with
  fewer than three commas and fewer than three words, and one without model from
  fewer than two words.
\<close>

theorem set_alias_raises:
  "((\<forall>inst \<in> set insts. has_identity inst) \<longleftrightarrow>
      (\<forall>v m s. fst (set_alias a v m s insts) = Inr 1 \<or> fst (set_alias a v m s insts) = Inr (- 1)))
   \<and> (fst (set_alias a v m s insts) = Inl e \<longleftrightarrow>
        (\<exists>pre inst post. insts = pre @ inst # post
           \<and> (\<forall>j \<in> set pre. identity_matches j v m s = Inr False)
           \<and> identity_matches inst v m s = Inl e))
   \<and> (count_list response CHR '','' < 3 \<and> length (split_ws response) < 3
        \<longrightarrow> snd (snd (parse_idn response)) = None)
   \<and> (count_list response CHR '','' < 3 \<and> length (split_ws response) < 2
        \<longrightarrow> fst (snd (parse_idn response)) = None)"
proof -
  have "(\<forall>inst \<in> set insts. has_identity inst) \<longleftrightarrow>
      (\<forall>v m s. fst (set_alias a v m s insts) = Inr 1 \<or> fst (set_alias a v m s insts) = Inr (- 1))"
  proof
    assume "\<forall>inst \<in> set insts. has_identity inst"
    then show "\<forall>v m s. fst (set_alias a v m s insts) = Inr 1 \<or> fst (set_alias a v m s insts) = Inr (- 1)"
      by (simp add: set_alias_total)
  next
    assume tot: "\<forall>v m s. fst (set_alias a v m s insts) = Inr 1 \<or> fst (set_alias a v m s insts) = Inr (- 1)"
    show "\<forall>inst \<in> set insts. has_identity inst"
    proof (rule ccontr)
      assume "\<not> (\<forall>inst \<in> set insts. has_identity inst)"
      from set_alias_can_raise [OF this] obtain v m s where
        "fst (set_alias a v m s insts) = Inl AttributeError" by blast
      with tot show False by (metis Inl_Inr_False)
    qed
  qed
  moreover note set_alias_raises_iff [of a v m s insts e]
  moreover have "count_list response CHR '','' < 3 \<and> length (split_ws response) < 3
        \<longrightarrow> snd (snd (parse_idn response)) = None"
    by (simp add: parse_idn_few_parts)
  moreover have "count_list response CHR '','' < 3 \<and> length (split_ws response) < 2
        \<longrightarrow> fst (snd (parse_idn response)) = None"
    by (simp add: parse_idn_one_part)
  ultimately show ?thesis by blast
qed

theorem upyvisa_query_concat_witness:
  "upyvisa_query bench [dmm\<lparr>alias := Some ''M1 ''\<rparr>, psu\<lparr>alias := Some ''m1''\<rparr>] '' m1'' ''*IDN?'' []
     = (Inr ''ACME, PSU-30 ,SN 001,1.0KEITHLEY DMM6500'',
        [Opened ''GPIB0::5::INSTR'', Wrote ''GPIB0::5::INSTR'' ''*IDN?'', ReadFrom ''GPIB0::5::INSTR'',
         Opened ''ASRL3::INSTR'', Wrote ''ASRL3::INSTR'' ''*IDN?'', ReadFrom ''ASRL3::INSTR''])
   \<and> upyvisa_query bench [dmm\<lparr>alias := Some ''M1 ''\<rparr>, psu\<lparr>alias := Some ''m1''\<rparr>] ''m2'' ''*IDN?'' []
     = (Inr [], [])"
proof -
  let ?insts = "[dmm\<lparr>alias := Some ''M1 ''\<rparr>, psu\<lparr>alias := Some ''m1''\<rparr>]"
  have both: "filter (alias_matches '' m1'') ?insts = ?insts" by code_simp
  have each: "query_each bench ?insts ''*IDN?'' []
     = (Inr [''KEITHLEY DMM6500'', ''ACME, PSU-30 ,SN 001,1.0''],
        [Opened ''GPIB0::5::INSTR'', Wrote ''GPIB0::5::INSTR'' ''*IDN?'', ReadFrom ''GPIB0::5::INSTR'',
         Opened ''ASRL3::INSTR'', Wrote ''ASRL3::INSTR'' ''*IDN?'', ReadFrom ''ASRL3::INSTR''])"
    by code_simp
  have none: "filter (alias_matches ''m2'') ?insts = []" by code_simp
  from upyvisa_query_concat [of bench ?insts "'' m1''" "''*IDN?''" "[]"]
  have one: "upyvisa_query bench ?insts '' m1'' ''*IDN?'' []
     = (Inr ''ACME, PSU-30 ,SN 001,1.0KEITHLEY DMM6500'',
        [Opened ''GPIB0::5::INSTR'', Wrote ''GPIB0::5::INSTR'' ''*IDN?'', ReadFrom ''GPIB0::5::INSTR'',
         Opened ''ASRL3::INSTR'', Wrote ''ASRL3::INSTR'' ''*IDN?'', ReadFrom ''ASRL3::INSTR''])"
    unfolding both each by simp
  from upyvisa_query_concat [of bench ?insts "''m2''" "''*IDN?''" "[]"] none
  have two: "upyvisa_query bench ?insts ''m2'' ''*IDN?'' [] = (Inr [], [])"
    by blast
  from one two show ?thesis by blast
qed

theorem set_alias_idempotent_witness:
  "set_alias ''m1'' ''Acme '' ''psu-30'' ''sn 001 1.0''
     (snd (set_alias ''m1'' ''Acme '' ''psu-30'' ''sn 001 1.0'' [dmm\<lparr>vendor := Some ''Fluke''\<rparr>, psu]))
   = (Inr 1, [dmm\<lparr>vendor := Some ''Fluke''\<rparr>, psu\<lparr>alias := Some ''m1''\<rparr>])"
proof -
  have once: "set_alias ''m1'' ''Acme '' ''psu-30'' ''sn 001 1.0'' [dmm\<lparr>vendor := Some ''Fluke''\<rparr>, psu]
     = (Inr 1, [dmm\<lparr>vendor := Some ''Fluke''\<rparr>, psu\<lparr>alias := Some ''m1''\<rparr>])"
    by code_simp
  from set_alias_idempotent [of "''m1''" "''Acme ''" "''psu-30''" "''sn 001 1.0''"
      "[dmm\<lparr>vendor := Some ''Fluke''\<rparr>, psu]"]
  show ?thesis unfolding once by simp
qed

theorem set_alias_raises_witness:
  "fst (set_alias ''m1'' ''keithley'' ''dmm6500'' ''4001'' [psu, dmm]) = Inl AttributeError
   \<and> snd (snd (parse_idn ''KEITHLEY DMM6500'')) = None
   \<and> fst (snd (parse_idn ''KEITHLEY-DMM6500'')) = None
   \<and> (fst (set_alias ''m1'' ''acme'' ''psu-30'' ''4001'' [psu]) = Inr 1
        \<or> fst (set_alias ''m1'' ''acme'' ''psu-30'' ''4001'' [psu]) = Inr (- 1))"
proof -
  note th = set_alias_raises [of _ "''m1''"]
  have skip: "\<forall>j \<in> set [psu]. identity_matches j ''keithley'' ''dmm6500'' ''4001'' = Inr False"
    by code_simp
  have raises: "identity_matches dmm ''keithley'' ''dmm6500'' ''4001'' = Inl AttributeError"
    by code_simp
  have "[psu, dmm] = [psu] @ dmm # []" by simp
  with skip raises
    th [of "[psu, dmm]" "''keithley''" "''dmm6500''" "''4001''" AttributeError "[]"]
  have one: "fst (set_alias ''m1'' ''keithley'' ''dmm6500'' ''4001'' [psu, dmm]) = Inl AttributeError"
    by blast
  have few: "count_list ''KEITHLEY DMM6500'' CHR '','' < 3 \<and> length (split_ws ''KEITHLEY DMM6500'') < 3"
    by code_simp
  with th [of "[]" "[]" "[]" "[]" AttributeError "''KEITHLEY DMM6500''"]
  have two: "snd (snd (parse_idn ''KEITHLEY DMM6500'')) = None"
    by blast
  have single: "count_list ''KEITHLEY-DMM6500'' CHR '','' < 3 \<and> length (split_ws ''KEITHLEY-DMM6500'') < 2"
    by code_simp
  with th [of "[]" "[]" "[]" "[]" AttributeError "''KEITHLEY-DMM6500''"]
  have two': "fst (snd (parse_idn ''KEITHLEY-DMM6500'')) = None"
    by blast
  have ident: "\<forall>inst \<in> set [psu]. has_identity inst" by code_simp
  with th [of "[psu]" "[]" "[]" "[]" AttributeError "[]"]
  have three: "fst (set_alias ''m1'' ''acme'' ''psu-30'' ''4001'' [psu]) = Inr 1
        \<or> fst (set_alias ''m1'' ''acme'' ''psu-30'' ''4001'' [psu]) = Inr (- 1)"
    by blast
  from one two two' three show ?thesis by blast
qed

text \<open>
  C9 as stated has \<^verbatim>\<open>set_alias\<close> raise whenever an instrument iterated earlier has
  a field that is None. The comparison stops at the first field that differs: with a
  multimeter without serial first in the collection, as discovery leaves it, the
  call still assigns the alias of the power supply behind it, and it returns -1 for
  an instrument that is not there.
\<close>

theorem set_alias_raises_counterexample:
  "fst (snd (find_instruments bench [] [])) = [dmm, psu]
   \<and> \<not> has_identity dmm
   \<and> set_alias ''m1'' ''ACME'' ''psu-30'' ''sn 001 1.0'' [dmm, psu]
       = (Inr 1, [dmm, psu\<lparr>alias := Some ''m1''\<rparr>])
   \<and> set_alias ''m1'' ''Rigol'' ''DS1054'' ''77'' [dmm, psu] = (Inr (- 1), [dmm, psu])"
  by code_simp

section \<open>Properties of the request layer\<close>

subsection \<open>Plain replacement texts\<close>

lemma parse_template_Cons_plain:
  "c \<noteq> CHR 0x5C \<Longrightarrow>
     parse_template (c # cs) = (case parse_template cs of Inl e \<Rightarrow> Inl e | Inr qs \<Rightarrow> Inr (TLit c # qs))"
  by (subst parse_template.simps) (simp add: template_step_def split: sum.splits)

lemma parse_template_plain:
  "CHR 0x5C \<notin> set v \<Longrightarrow> parse_template v = Inr (map TLit v)"
proof (induction v)
  case Nil
  show ?case by (subst parse_template.simps) simp
next
  case (Cons c cs)
  then have "c \<noteq> CHR 0x5C" and "parse_template cs = Inr (map TLit cs)" by auto
  then show ?case by (simp add: parse_template_Cons_plain)
qed

lemma expand_template_plain: "expand_template (map TLit v) matched = v"
  by (induction v) (simp_all add: expand_template_def)

subsection \<open>Replacing the placeholders of a template given by its pieces\<close>

lemma sub_placeholders_literal:
  "CHR ''{'' \<notin> set l \<Longrightarrow> sub_placeholders ps (l @ r) = l @ sub_placeholders ps r"
  by (subst (1 2) sub_placeholders.simps)
     (simp add: find_placeholder_literal split: option.splits)

lemma sub_placeholders_hole:
  "b \<noteq> [] \<Longrightarrow> CHR ''}'' \<notin> set b \<Longrightarrow>
     sub_placeholders ps (CHR ''{'' # b @ CHR ''}'' # r)
       = expand_template ps (CHR ''{'' # b @ ''}'') @ sub_placeholders ps r"
  by (subst sub_placeholders.simps) (simp add: find_placeholder_hole)

lemma sub_placeholders_Nil: "sub_placeholders ps [] = []"
  by (subst sub_placeholders.simps) simp

lemma sub_placeholders_render:
  "well_formed ps \<Longrightarrow>
     sub_placeholders (map TLit v) (render ps) = render (map (fill_hole v) ps)"
  by (induction ps rule: render.induct)
     (simp_all add: sub_placeholders_Nil sub_placeholders_literal sub_placeholders_hole
        expand_template_plain)

lemma find_placeholder_render:
  "well_formed ps \<Longrightarrow> find_placeholder (render ps) = None \<Longrightarrow> map (fill_hole v) ps = ps"
proof (induction ps rule: render.induct)
  case 1
  show ?case by simp
next
  case (2 s ps)
  then show ?case
    by (simp add: find_placeholder_literal)
next
  case (3 b ps)
  then show ?case
    by (simp add: find_placeholder_hole)
qed

lemma substitute_params_values:
  "param_defs \<noteq> [] \<Longrightarrow> substitute_params param_defs vals cmd = Inr cmd' \<Longrightarrow> vals \<noteq> []"
  by (cases param_defs) (auto split: option.splits)

text \<open>
  C3 (amended). In a dispatch with parameter definitions, once the loop has
  substituted the value of every parameter, the values are not empty, and every
  placeholder that is left is replaced with the trimmed first value of the values, in
  the order in which the request lists them. The first value is taken as it is when
  it has no backslash. The template after the loop is given by its pieces; without
  a placeholder left it stays as it is.
\<close>

theorem build_command_fallback:
  assumes "param_defs \<noteq> []"
    and "substitute_params param_defs vals cmd = Inr (render ps)"
    and "well_formed ps"
    and "CHR 0x5C \<notin> set (strip (snd (hd vals)))"
  shows "vals \<noteq> []
     \<and> build_command param_defs vals cmd
         = Inr (render (map (fill_hole (strip (snd (hd vals)))) ps))"
proof -
  from assms(1,2) have nonempty: "vals \<noteq> []"
    by (rule substitute_params_values)
  show ?thesis
  proof (cases "find_placeholder (render ps)")
    case None
    with assms(3) have "map (fill_hole (strip (snd (hd vals)))) ps = ps"
      by (simp add: find_placeholder_render)
    with None assms(2) nonempty show ?thesis
      by (simp add: build_command_def fill_remaining_def)
  next
    case (Some m)
    with assms nonempty show ?thesis
      by (simp add: build_command_def fill_remaining_def re_sub_placeholders_def
            parse_template_plain sub_placeholders_render)
  qed
qed

theorem build_command_fallback_witness:
  "build_command (parse_param_defs (Some ''what:VOLT;CURR'') (Some ''MEAS:{what}? {ch}''))
     [(''what'', '' VOLT ''), (''ch'', ''2'')] ''MEAS:{what}? {ch}'' = Inr ''MEAS:VOLT? VOLT''"
proof -
  let ?defs = "parse_param_defs (Some ''what:VOLT;CURR'') (Some ''MEAS:{what}? {ch}'')"
  let ?vals = "[(''what'', '' VOLT ''), (''ch'', ''2'')]"
  let ?ps = "[Lit ''MEAS:VOLT? '', Hole ''ch'']"
  have h1: "?defs \<noteq> []" by code_simp
  have h2: "substitute_params ?defs ?vals ''MEAS:{what}? {ch}'' = Inr (render ?ps)" by code_simp
  have h3: "well_formed ?ps" by code_simp
  have h4: "CHR 0x5C \<notin> set (strip (snd (hd ?vals)))" by code_simp
  have e: "render (map (fill_hole (strip (snd (hd ?vals)))) ?ps) = ''MEAS:VOLT? VOLT''" by code_simp
  from build_command_fallback [OF h1 h2 h3 h4] show ?thesis
    by (simp only: e)
qed

text \<open>
  C3 as stated fills the placeholders that are left with the first value of the
  values. The source trims that value first: with the first value \<^verbatim>\<open>" VOLT "\<close> the
  command sent ends in \<^verbatim>\<open>VOLT\<close> without the blanks around it. And with parameter
  definitions the fallback is never reached with empty values: the request fails
  with the missing value of the first parameter.
\<close>

theorem build_command_fallback_counterexample:
  "fst (api_run bench catalog (Some ''supply'') (Some ''MEAS'') (JDict [(''what'', '' VOLT '')]) None lab)
     = Inr (GET, ''MEAS:VOLT? VOLT'', ''ACME, PSU-30 ,SN 001,1.0'')
   \<and> render (map (fill_hole (snd (hd [(''what'', '' VOLT '')]))) [Lit ''MEAS:VOLT? '', Hole ''ch''])
     = ''MEAS:VOLT?  VOLT ''
   \<and> ''MEAS:VOLT? VOLT'' \<noteq> ''MEAS:VOLT?  VOLT ''
   \<and> fst (api_run bench catalog (Some ''supply'') (Some ''MEAS'') (JDict []) None lab)
     = Inl (MissingValue ''what'')"
  by code_simp

text \<open>
  C2, at a request where the source departs from it. The command \<^verbatim>\<open>LOAD\<close> has the
  parameters \<^verbatim>\<open>file\<close> and \<^verbatim>\<open>slot\<close>; the request gives \<^verbatim>\<open>file\<close> a value with a
  backslash before a letter and gives \<^verbatim>\<open>slot\<close> no value. The loop reaches \<^verbatim>\<open>file\<close>
  first, \<^verbatim>\<open>re.sub\<close> reads the backslash in its value as an escape and raises, and the
  route answers with that exception instead of the missing value of \<^verbatim>\<open>slot\<close>.
  Nothing is sent to the transport and the state stays as it was.
\<close>

theorem api_run_missing_value_raised:
  "api_run bench catalog (Some ''supply'') (Some ''LOAD'')
     (JDict [(''file'', ''C:'' @ [CHR 0x5C] @ ''data'')]) None lab
   = (Inl (Raised TemplateError), lab)"
  by code_simp

subsection \<open>A missing value\<close>

text \<open>
  Whenever the value of a parameter is missing or blank the command is not built and
  the dispatch sends nothing; the answer names the first such parameter when the
  values before it are plain.
\<close>

lemma substitute_params_missing:
  assumes "d \<in> set param_defs"
    and "case map_of vals (name d) of None \<Rightarrow> True | Some raw \<Rightarrow> strip raw = []"
  shows "\<exists>e. substitute_params param_defs vals cmd = Inl e"
  using assms
proof (induction param_defs arbitrary: cmd)
  case Nil
  then show ?case by simp
next
  case (Cons p ps)
  show ?case
  proof (cases "substitute_params (p # ps) vals cmd")
    case (Inl e)
    then show ?thesis by blast
  next
    case (Inr out)
    then obtain raw v cmd' where
      p: "map_of vals (name p) = Some raw" "strip raw \<noteq> []"
      and rest: "substitute_params ps vals cmd' = Inr out"
      by (auto split: option.splits if_splits sum.splits)
    from p Cons.prems have "d \<in> set ps" by auto
    from Cons.IH [OF this Cons.prems(2), of cmd'] rest show ?thesis by simp
  qed
qed

lemma dispatch_missing_value:
  assumes "d \<in> set param_defs"
    and "case map_of vals (name d) of None \<Rightarrow> True | Some raw \<Rightarrow> strip raw = []"
  shows "\<exists>e. dispatch T insts al c param_defs vals st = (Inl e, st)"
proof -
  from assms(1) have ne: "param_defs \<noteq> []" by auto
  from substitute_params_missing [OF assms] obtain e where
    "substitute_params param_defs vals (strip (c_cmd c)) = Inl e" by blast
  with ne show ?thesis
    by (simp add: dispatch_def build_command_def)
qed

lemma substitute_params_first_missing:
  assumes "\<forall>p \<in> set pre. \<exists>raw. map_of vals (name p) = Some raw \<and> strip raw \<noteq> []
              \<and> CHR 0x5C \<notin> set raw \<and> format_spec p = []"
    and "case map_of vals (name d) of None \<Rightarrow> True | Some raw \<Rightarrow> strip raw = []"
  shows "substitute_params (pre @ d # post) vals cmd = Inl (MissingValue (name d))"
  using assms(1)
proof (induction pre arbitrary: cmd)
  case Nil
  from assms(2) show ?case by (auto split: option.splits)
next
  case (Cons p pre)
  then obtain raw where
    p: "map_of vals (name p) = Some raw" "strip raw \<noteq> []" "CHR 0x5C \<notin> set raw" "format_spec p = []"
    by auto
  have "set (strip raw) \<subseteq> set raw"
    unfolding strip_def by (metis set_dropWhileD set_rev subsetI)
  with p(3) have plain: "CHR 0x5C \<notin> set (strip raw)" by blast
  from Cons have IH: "\<And>cmd. substitute_params (pre @ d # post) vals cmd = Inl (MissingValue (name d))"
    by simp
  from p plain show ?case
    by (simp add: apply_format_spec_def re_sub_named_def parse_template_plain IH)
qed

lemma api_run_missing_value:
  assumes "strip a \<noteq> []" and "strip n \<noteq> []"
    and "get_mgr T st = (Inr insts, st1)"
    and "find (api_alias_matches (strip a)) insts = Some inst"
    and "find (\<lambda>x. casefold (c_name x) = casefold (strip n)) (catalog_get SCPI_DEFS (model inst)) = Some c"
    and "effective_values vals (strip (case v of None \<Rightarrow> [] | Some x \<Rightarrow> x))
           (parse_param_defs (Some (c_parameters_raw c)) (Some (c_cmd c))) = Some kvs"
    and "d \<in> set (parse_param_defs (Some (c_parameters_raw c)) (Some (c_cmd c)))"
    and "case map_of kvs (name d) of None \<Rightarrow> True | Some raw \<Rightarrow> strip raw = []"
  shows "\<exists>e. api_run T SCPI_DEFS (Some a) (Some n) vals v st = (Inl e, st1)"
proof -
  from dispatch_missing_value [OF assms(7,8)] obtain e where
    "dispatch T insts (strip a) c (parse_param_defs (Some (c_parameters_raw c)) (Some (c_cmd c))) kvs st1
       = (Inl e, st1)"
    by blast
  with assms(1-6) have "api_run T SCPI_DEFS (Some a) (Some n) vals v st = (Inl e, st1)"
    by (simp add: api_run_def Let_def)
  then show ?thesis by blast
qed

subsection \<open>Commands outside the catalog\<close>

lemma in_set_dropWhile: "x \<in> set xs \<Longrightarrow> \<not> P x \<Longrightarrow> x \<in> set (dropWhile P xs)"
  by (induction xs) auto

lemma in_set_strip:
  assumes "\<not> is_space c"
  shows "c \<in> set (strip s) \<longleftrightarrow> c \<in> set s"
proof
  assume "c \<in> set (strip s)"
  then show "c \<in> set s"
    unfolding strip_def by (metis set_dropWhileD set_rev)
next
  assume "c \<in> set s"
  with assms have "c \<in> set (rev (dropWhile is_space s))"
    by (simp add: in_set_dropWhile)
  with assms show "c \<in> set (strip s)"
    unfolding strip_def by (simp add: in_set_dropWhile)
qed

lemma question_mark_strip: "CHR ''?'' \<in> set (strip s) \<longleftrightarrow> CHR ''?'' \<in> set s"
proof -
  have "\<not> is_space CHR ''?''" by code_simp
  then show ?thesis by (rule in_set_strip)
qed

lemma instrument_write_events:
  "\<exists>new. snd (instrument_write T inst c evs) = evs @ new \<and> list_all (\<lambda>ev. \<not> is_read ev) new"
  by (auto simp: instrument_write_def Let_def is_read_def split: option.splits io_fault.splits)

lemma upyvisa_write_events:
  "\<exists>new. snd (upyvisa_write T insts a c evs) = evs @ new \<and> list_all (\<lambda>ev. \<not> is_read ev) new"
proof (induction insts)
  case Nil
  show ?case by simp
next
  case (Cons inst rest)
  then show ?case
    using instrument_write_events [of T inst c evs] by simp
qed

text \<open>
  C10. A command outside the catalog, sent with an alias and a command text that are
  not empty after trimming: when the command has a question mark it goes to
  \<^verbatim>\<open>query\<close> and the response of the query is returned; otherwise it goes to
  \<^verbatim>\<open>write\<close>, the response returned is empty and nothing is read from the
  transport.
\<close>

theorem api_custom_dispatch:
  assumes "strip a \<noteq> []" and "strip c \<noteq> []" and "get_mgr T st = (Inr insts, st1)"
  shows "(CHR ''?'' \<in> set c \<longrightarrow>
            api_custom T (Some a) (Some c) st =
              (case upyvisa_query T insts (strip a) (strip c) (events st1) of
                 (Inl e, evs) \<Rightarrow> (Inl (Raised e), st1\<lparr>events := evs\<rparr>)
               | (Inr resp, evs) \<Rightarrow> (Inr (strip c, resp), st1\<lparr>events := evs\<rparr>)))
       \<and> (CHR ''?'' \<notin> set c \<longrightarrow>
            api_custom T (Some a) (Some c) st =
              (case upyvisa_write T insts (strip a) (strip c) (events st1) of
                 (Inl e, evs) \<Rightarrow> (Inl (Raised e), st1\<lparr>events := evs\<rparr>)
               | (Inr u, evs) \<Rightarrow> (Inr (strip c, []), st1\<lparr>events := evs\<rparr>))
            \<and> (\<exists>new. events (snd (api_custom T (Some a) (Some c) st)) = events st1 @ new
                   \<and> list_all (\<lambda>ev. \<not> is_read ev) new))"
proof -
  have q: "CHR ''?'' \<in> set c \<longrightarrow>
            api_custom T (Some a) (Some c) st =
              (case upyvisa_query T insts (strip a) (strip c) (events st1) of
                 (Inl e, evs) \<Rightarrow> (Inl (Raised e), st1\<lparr>events := evs\<rparr>)
               | (Inr resp, evs) \<Rightarrow> (Inr (strip c, resp), st1\<lparr>events := evs\<rparr>))"
    using assms by (simp add: api_custom_def Let_def question_mark_strip)
  have w: "api_custom T (Some a) (Some c) st =
              (case upyvisa_write T insts (strip a) (strip c) (events st1) of
                 (Inl e, evs) \<Rightarrow> (Inl (Raised e), st1\<lparr>events := evs\<rparr>)
               | (Inr u, evs) \<Rightarrow> (Inr (strip c, []), st1\<lparr>events := evs\<rparr>))"
    if "CHR ''?'' \<notin> set c"
    using assms that by (simp add: api_custom_def Let_def question_mark_strip)
  have ev: "\<exists>new. events (snd (api_custom T (Some a) (Some c) st)) = events st1 @ new
                   \<and> list_all (\<lambda>ev. \<not> is_read ev) new"
    if "CHR ''?'' \<notin> set c"
  proof -
    obtain r evs where wr: "upyvisa_write T insts (strip a) (strip c) (events st1) = (r, evs)"
      by (cases "upyvisa_write T insts (strip a) (strip c) (events st1)")
    with upyvisa_write_events [of T insts "strip a" "strip c" "events st1"]
    obtain new where "evs = events st1 @ new" "list_all (\<lambda>ev. \<not> is_read ev) new"
      by auto
    moreover from w [OF that] wr have "events (snd (api_custom T (Some a) (Some c) st)) = evs"
      by (cases r) simp_all
    ultimately show ?thesis by blast
  qed
  from q w ev show ?thesis by blast
qed

theorem api_custom_dispatch_witness:
  "api_custom bench (Some '' Supply'') (Some ''MEAS:VOLT? '') lab
     = (Inr (''MEAS:VOLT?'', ''ACME, PSU-30 ,SN 001,1.0''),
        lab\<lparr>events := [Opened ''ASRL3::INSTR'', Wrote ''ASRL3::INSTR'' ''MEAS:VOLT?'',
                         ReadFrom ''ASRL3::INSTR'']\<rparr>)
   \<and> api_custom bench (Some '' Supply'') (Some '' OUTP ON'') lab
     = (Inr (''OUTP ON'', [] :: string),
        lab\<lparr>events := [Opened ''ASRL3::INSTR'', Wrote ''ASRL3::INSTR'' ''OUTP ON'']\<rparr>)"
proof -
  have a: "strip '' Supply'' \<noteq> []" by code_simp
  have c1: "strip ''MEAS:VOLT? '' \<noteq> []" by code_simp
  have c2: "strip '' OUTP ON'' \<noteq> []" by code_simp
  have m: "get_mgr bench lab = (Inr [dmm, psu\<lparr>alias := Some ''supply''\<rparr>], lab)" by code_simp
  have q1: "CHR ''?'' \<in> set ''MEAS:VOLT? ''" by code_simp
  have q2: "CHR ''?'' \<notin> set '' OUTP ON''" by code_simp
  have e1: "(case upyvisa_query bench [dmm, psu\<lparr>alias := Some ''supply''\<rparr>] (strip '' Supply'')
                  (strip ''MEAS:VOLT? '') (events lab) of
               (Inl e, evs) \<Rightarrow> (Inl (Raised e), lab\<lparr>events := evs\<rparr>)
             | (Inr resp, evs) \<Rightarrow> (Inr (strip ''MEAS:VOLT? '', resp), lab\<lparr>events := evs\<rparr>))
     = (Inr (''MEAS:VOLT?'', ''ACME, PSU-30 ,SN 001,1.0''),
        lab\<lparr>events := [Opened ''ASRL3::INSTR'', Wrote ''ASRL3::INSTR'' ''MEAS:VOLT?'',
                         ReadFrom ''ASRL3::INSTR'']\<rparr>)"
    by code_simp
  have e2: "(case upyvisa_write bench [dmm, psu\<lparr>alias := Some ''supply''\<rparr>] (strip '' Supply'')
                  (strip '' OUTP ON'') (events lab) of
               (Inl e, evs) \<Rightarrow> (Inl (Raised e), lab\<lparr>events := evs\<rparr>)
             | (Inr u, evs) \<Rightarrow> (Inr (strip '' OUTP ON'', [] :: string), lab\<lparr>events := evs\<rparr>))
     = (Inr (''OUTP ON'', [] :: string),
        lab\<lparr>events := [Opened ''ASRL3::INSTR'', Wrote ''ASRL3::INSTR'' ''OUTP ON'']\<rparr>)"
    by code_simp
  from api_custom_dispatch [OF a c1 m] q1
  have one: "api_custom bench (Some '' Supply'') (Some ''MEAS:VOLT? '') lab
     = (Inr (''MEAS:VOLT?'', ''ACME, PSU-30 ,SN 001,1.0''),
        lab\<lparr>events := [Opened ''ASRL3::INSTR'', Wrote ''ASRL3::INSTR'' ''MEAS:VOLT?'',
                         ReadFrom ''ASRL3::INSTR'']\<rparr>)"
    unfolding e1 by blast
  from api_custom_dispatch [OF a c2 m] q2
  have two: "api_custom bench (Some '' Supply'') (Some '' OUTP ON'') lab
     = (Inr (''OUTP ON'', [] :: string),
        lab\<lparr>events := [Opened ''ASRL3::INSTR'', Wrote ''ASRL3::INSTR'' ''OUTP ON'']\<rparr>)"
    unfolding e2 by blast
  from one two show ?thesis by blast
qed

section \<open>Properties of the value formatter\<close>

subsection \<open>Digits\<close>

lemma digit_chars:
  "list_all (\<lambda>d. is_digit (char_of (48 + d))) [0, 1, 2, 3, 4, 5, 6, 7, 8, 9 :: int]"
  by code_simp

lemma is_digit_char_of:
  assumes "0 \<le> d" and "d < 10"
  shows "is_digit (char_of (48 + d :: int))"
proof -
  from assms have "d \<in> set [0, 1, 2, 3, 4, 5, 6, 7, 8, 9 :: int]"
    by (simp; arith)
  with digit_chars show ?thesis
    unfolding list_all_iff by blast
qed

lemma int_digits_digits:
  "0 \<le> k \<Longrightarrow> int_digits k \<noteq> [] \<and> list_all is_digit (int_digits k)"
proof (induction k rule: int_digits.induct)
  case (1 n)
  show ?case
  proof (cases "n < 10")
    case True
    with "1.prems" show ?thesis
      by (subst (1 2) int_digits.simps) (simp add: is_digit_char_of)
  next
    case False
    with "1.prems" have "0 \<le> n div 10" "0 \<le> n mod 10" "n mod 10 < 10" by simp_all
    with False "1.IH" show ?thesis
      by (subst (1 2) int_digits.simps) (simp add: is_digit_char_of)
  qed
qed

lemma int_digits_length:
  "0 \<le> k \<Longrightarrow> k < 10 ^ n \<Longrightarrow> 0 < n \<Longrightarrow> length (int_digits k) \<le> n"
proof (induction k arbitrary: n rule: int_digits.induct)
  case (1 k)
  show ?case
  proof (cases "k < 10")
    case True
    with "1.prems" show ?thesis
      by (subst int_digits.simps) simp
  next
    case False
    with "1.prems" obtain n' where n: "n = Suc n'" by (cases n) auto
    have "0 < n'"
    proof (rule ccontr)
      assume "\<not> 0 < n'"
      with n "1.prems" False show False by simp
    qed
    moreover from "1.prems" n have "k < 10 * 10 ^ n'" by simp
    then have "k div 10 < 10 ^ n'" by (simp add: div_less_iff_less_mult mult.commute) 
    moreover from "1.prems" have "0 \<le> k div 10" by simp
    ultimately have "length (int_digits (k div 10)) \<le> n'"
      using "1.IH" False by simp
    with False n show ?thesis
      by (subst int_digits.simps) simp
  qed
qed

subsection \<open>Rounding\<close>

lemma round_half_even_nonneg:
  "0 \<le> a \<Longrightarrow> 0 < b \<Longrightarrow> 0 \<le> round_half_even a b"
  by (simp add: round_half_even_def Let_def pos_imp_zdiv_nonneg_iff)

lemma round_half_even_nearest:
  assumes "0 \<le> a" and "0 < b"
  shows "\<bar>2 * (round_half_even a b * b - a)\<bar> \<le> b"
proof -
  let ?q = "a div b" and ?r = "a mod b"
  have a: "a = ?q * b + ?r" by simp
  from assms have r: "0 \<le> ?r" "?r < b" by simp_all
  have down: "?q * b - a = - ?r"
    using a by linarith
  have up: "(?q + 1) * b - a = b - ?r"
    using down by (simp add: algebra_simps)
  show ?thesis
  proof (cases "2 * ?r < b")
    case True
    then have "round_half_even a b = ?q" by (simp add: round_half_even_def Let_def)
    with down r True show ?thesis by simp
  next
    case False
    show ?thesis
    proof (cases "b < 2 * ?r")
      case True
      with False have "round_half_even a b = ?q + 1" by (simp add: round_half_even_def Let_def)
      with up r True show ?thesis by simp
    next
      case eq: False
      with False have half: "2 * ?r = b" by simp
      show ?thesis
      proof (cases "even ?q")
        case True
        with False eq have "round_half_even a b = ?q" by (simp add: round_half_even_def Let_def)
        with down half assms show ?thesis by simp
      next
        case odd: False
        with False eq have "round_half_even a b = ?q + 1" by (simp add: round_half_even_def Let_def)
        with up half r show ?thesis by simp
      qed
    qed
  qed
qed

lemma scaled_nonneg: "0 \<le> m \<Longrightarrow> 0 \<le> scaled n m p"
  by (simp add: scaled_def round_half_even_nonneg)

subsection \<open>The shape of a rendered float\<close>

lemma not_digit_point: "\<not> is_digit CHR ''.''"
  by code_simp

lemma not_digit_minus: "\<not> is_digit CHR ''-''"
  by code_simp

lemma takeWhile_digits:
  "list_all is_digit ds \<Longrightarrow> takeWhile is_digit (ds @ CHR ''.'' # r) = ds"
  by (induction ds) (simp_all add: not_digit_point)

lemma dropWhile_digits:
  "list_all is_digit ds \<Longrightarrow> dropWhile is_digit (ds @ CHR ''.'' # r) = CHR ''.'' # r"
  by (induction ds) (simp_all add: not_digit_point)

lemma takeWhile_all_digits: "list_all is_digit ds \<Longrightarrow> takeWhile is_digit ds = ds"
  by (induction ds) simp_all

lemma dropWhile_all_digits: "list_all is_digit ds \<Longrightarrow> dropWhile is_digit ds = []"
  by (induction ds) simp_all

lemma pad_zeros_digits:
  assumes "list_all is_digit ds" and "length ds \<le> n"
  shows "length (pad_zeros n ds) = n \<and> list_all is_digit (pad_zeros n ds)"
proof -
  have "is_digit CHR ''0''" by code_simp
  with assms show ?thesis
    by (auto simp: pad_zeros_def list_all_iff)
qed

lemma fixed_point_unsigned:
  assumes "ip \<noteq> []" and "list_all is_digit ip"
    and "n = 0 \<or> (length fp = n \<and> list_all is_digit fp)"
  shows "fixed_point n (ip @ (if n = 0 then [] else CHR ''.'' # fp))"
proof -
  from assms(1,2) have "hd ip \<noteq> CHR ''-''"
    by (cases ip) (auto simp: not_digit_minus)
  with assms(1) have t: "(case ip @ (if n = 0 then [] else CHR ''.'' # fp) of
        [] \<Rightarrow> [] | c # cs \<Rightarrow> if c = CHR ''-'' then cs else ip @ (if n = 0 then [] else CHR ''.'' # fp))
      = ip @ (if n = 0 then [] else CHR ''.'' # fp)"
    by (cases ip) simp_all
  show ?thesis
    unfolding fixed_point_def t using assms
    by (auto simp: Let_def takeWhile_digits dropWhile_digits takeWhile_all_digits
          dropWhile_all_digits)
qed

lemma fixed_point_signed:
  assumes "ip \<noteq> []" and "list_all is_digit ip"
    and "n = 0 \<or> (length fp = n \<and> list_all is_digit fp)"
  shows "fixed_point n (CHR ''-'' # ip @ (if n = 0 then [] else CHR ''.'' # fp))"
  unfolding fixed_point_def using assms
  by (auto simp: Let_def takeWhile_digits dropWhile_digits takeWhile_all_digits
        dropWhile_all_digits)

lemma format_f_fixed_point:
  assumes "0 \<le> m"
  shows "fixed_point n (format_f n (Finite neg m p))"
proof -
  let ?r = "scaled n m p"
  from assms have r: "0 \<le> ?r" by (rule scaled_nonneg)
  then have ip: "int_digits (?r div 10 ^ n) \<noteq> []" "list_all is_digit (int_digits (?r div 10 ^ n))"
    using int_digits_digits [of "?r div 10 ^ n"] by (simp_all add: pos_imp_zdiv_nonneg_iff)
  have fp: "n = 0 \<or> (length (pad_zeros n (int_digits (?r mod 10 ^ n))) = n
      \<and> list_all is_digit (pad_zeros n (int_digits (?r mod 10 ^ n))))"
  proof (cases "n = 0")
    case True
    then show ?thesis by simp
  next
    case False
    have "0 \<le> ?r mod 10 ^ n" "?r mod 10 ^ n < 10 ^ n" by simp_all
    with False have "list_all is_digit (int_digits (?r mod 10 ^ n))"
      and "length (int_digits (?r mod 10 ^ n)) \<le> n"
      using int_digits_digits [of "?r mod 10 ^ n"] int_digits_length [of "?r mod 10 ^ n" n]
      by simp_all
    then show ?thesis by (simp add: pad_zeros_digits)
  qed
  show ?thesis
  proof (cases neg)
    case True
    with fixed_point_signed [OF ip fp] show ?thesis by (simp add: format_f_def)
  next
    case False
    with fixed_point_unsigned [OF ip fp] show ?thesis by (simp add: format_f_def)
  qed
qed

subsection \<open>Parsed floats\<close>

lemma is_digit_of_char: "is_digit c \<Longrightarrow> 48 \<le> (of_char c :: int)"
proof -
  assume "is_digit c"
  then have "48 \<le> (of_char c :: nat)" by (simp add: is_digit_def)
  then have "48 \<le> int (of_char c)" by linarith
  also have "int (of_char c) = of_char c" by (rule of_nat_of_char)
  finally show ?thesis .
qed

lemma foldl_digits_nonneg:
  "list_all is_digit ds \<Longrightarrow> 0 \<le> acc \<Longrightarrow>
     0 \<le> foldl (\<lambda>n c. 10 * n + (of_char c - 48)) (acc :: int) ds"
proof (induction ds arbitrary: acc)
  case Nil
  then show ?case by simp
next
  case (Cons c cs)
  then have "48 \<le> (of_char c :: int)" by (simp add: is_digit_of_char)
  with Cons.prems have "0 \<le> 10 * acc + (of_char c - 48)" by simp
  with Cons show ?case by simp
qed

lemma int_of_digits_nonneg: "list_all is_digit ds \<Longrightarrow> 0 \<le> int_of_digits ds"
  by (simp add: int_of_digits_def foldl_digits_nonneg)

lemma list_all_takeWhile: "list_all P (takeWhile P xs)"
  by (induction xs) simp_all

lemma binary64_nonneg:
  assumes "0 \<le> a" and "0 < b" and "binary64 neg a b = Finite sg m p"
  shows "0 \<le> m"
  using assms
  by (auto simp: binary64_def Let_def round_half_even_nonneg split: if_splits)

lemma decimal_float_nonneg:
  assumes "0 \<le> M" and "decimal_float neg M E = Finite sg m p"
  shows "0 \<le> m"
proof (cases "0 \<le> E")
  case True
  with assms(2) have "binary64 neg (M * 10 ^ nat E) 1 = Finite sg m p"
    by (simp add: decimal_float_def)
  moreover from assms(1) have "0 \<le> M * 10 ^ nat E" by simp
  ultimately show ?thesis using binary64_nonneg by (metis zero_less_one)
next
  case False
  with assms(2) have "binary64 neg M (10 ^ nat (- E)) = Finite sg m p"
    by (simp add: decimal_float_def)
  moreover have "(0::int) < 10 ^ nat (- E)" by simp
  ultimately show ?thesis using binary64_nonneg assms(1) by blast
qed

lemma parse_float_nonneg:
  assumes "parse_float s = Some (Finite sg m p)"
  shows "0 \<le> m"
proof -
  obtain neg r where sign: "take_sign s = (neg, r)" by (cases "take_sign s")
  let ?ip = "takeWhile is_digit r"
  let ?r1 = "dropWhile is_digit r"
  let ?fp = "case ?r1 of [] \<Rightarrow> [] | c # cs \<Rightarrow> if c = CHR ''.'' then takeWhile is_digit cs else []"
  have digits: "list_all is_digit (?ip @ ?fp)"
    by (simp add: list_all_takeWhile split: list.splits)
  then have M: "0 \<le> int_of_digits (?ip @ ?fp)" by (rule int_of_digits_nonneg)
  from assms sign obtain E where
    "decimal_float neg (int_of_digits (?ip @ ?fp)) E = Finite sg m p"
    by (auto simp: parse_float_def Let_def split: if_splits option.splits)
  with M show ?thesis by (rule decimal_float_nonneg)
qed

lemma float_of_str_nonneg:
  "float_of_str v = Some (Finite sg m p) \<Longrightarrow> 0 \<le> m"
  by (auto simp: float_of_str_def Let_def split: if_splits option.splits dest: parse_float_nonneg)

subsection \<open>The formatter\<close>

text \<open>
  C4 (amended). \<^verbatim>\<open>_apply_format_spec\<close> returns the value as it is for an empty
  format specification, for a specification that, trimmed, is not \<^verbatim>\<open>V.<N>f\<close> in any
  letter case, and for a value that \<^verbatim>\<open>float\<close> does not accept. When the
  specification matches and \<^verbatim>\<open>float\<close> accepts the value, the result is the float
  rendered with \<open>N\<close> places: for a finite float an optional minus, digits, and for
  \<open>0 < N\<close> a point and exactly \<open>N\<close> digits; for an infinity \<^verbatim>\<open>inf\<close> or \<^verbatim>\<open>-inf\<close>;
  for a NaN \<^verbatim>\<open>nan\<close>. This is for \<open>N\<close> written with at most 4300 digits and at most
  \<open>2 ^ 31 - 1\<close>.
\<close>

theorem apply_format_spec_cases:
  "apply_format_spec v [] = Inr v
   \<and> (match_vf (strip fmt) = None \<longrightarrow> apply_format_spec v fmt = Inr v)
   \<and> (match_vf (strip fmt) = Some ds \<and> length ds \<le> int_max_str_digits \<and> float_of_str v = None
        \<longrightarrow> apply_format_spec v fmt = Inr v)
   \<and> (match_vf (strip fmt) = Some ds \<and> length ds \<le> int_max_str_digits
        \<and> int_of_digits ds \<le> max_precision \<and> float_of_str v = Some x
        \<longrightarrow> apply_format_spec v fmt = Inr (format_f (nat (int_of_digits ds)) x)
            \<and> (case x of
                  Finite neg m p \<Rightarrow> fixed_point (nat (int_of_digits ds)) (format_f (nat (int_of_digits ds)) x)
                | Infinite neg \<Rightarrow> format_f (nat (int_of_digits ds)) x = (if neg then ''-inf'' else ''inf'')
                | NaN \<Rightarrow> format_f (nat (int_of_digits ds)) x = ''nan''))"
proof -
  have empty: "match_vf (strip []) = None" by code_simp
  have c1: "apply_format_spec v [] = Inr v"
    by (simp add: apply_format_spec_def)
  have c2: "match_vf (strip fmt) = None \<longrightarrow> apply_format_spec v fmt = Inr v"
    by (simp add: apply_format_spec_def)
  have c3: "match_vf (strip fmt) = Some ds \<and> length ds \<le> int_max_str_digits \<and> float_of_str v = None
        \<longrightarrow> apply_format_spec v fmt = Inr v"
    by (simp add: apply_format_spec_def)
  have c4: "apply_format_spec v fmt = Inr (format_f (nat (int_of_digits ds)) x)"
    if "match_vf (strip fmt) = Some ds" "length ds \<le> int_max_str_digits"
      "int_of_digits ds \<le> max_precision" "float_of_str v = Some x"
  proof -
    from that(1) empty have "fmt \<noteq> []" by auto
    with that show ?thesis by (simp add: apply_format_spec_def)
  qed
  have c5: "case x of
              Finite neg m p \<Rightarrow> fixed_point (nat (int_of_digits ds)) (format_f (nat (int_of_digits ds)) x)
            | Infinite neg \<Rightarrow> format_f (nat (int_of_digits ds)) x = (if neg then ''-inf'' else ''inf'')
            | NaN \<Rightarrow> format_f (nat (int_of_digits ds)) x = ''nan''"
    if "float_of_str v = Some x"
  proof (cases x)
    case (Finite neg m p)
    with that have "0 \<le> m" by (simp add: float_of_str_nonneg)
    with Finite show ?thesis by (simp add: format_f_fixed_point)
  next
    case (Infinite neg)
    then show ?thesis by (simp add: format_f_def)
  next
    case NaN
    then show ?thesis by (simp add: format_f_def)
  qed
  from c1 c2 c3 c4 c5 show ?thesis by blast
qed

theorem apply_format_spec_cases_witness:
  "apply_format_spec ''1.5'' '''' = Inr ''1.5''
   \<and> apply_format_spec ''1.5'' ''%.3f'' = Inr ''1.5''
   \<and> apply_format_spec ''abc'' ''V.2f'' = Inr ''abc''
   \<and> apply_format_spec ''1.5'' ''V.3f'' = Inr ''1.500''
   \<and> fixed_point 3 ''1.500''
   \<and> apply_format_spec ''-2.675'' '' v.2F '' = Inr ''-2.67''
   \<and> fixed_point 2 ''-2.67''"
proof -
  note th = apply_format_spec_cases
  have a: "apply_format_spec ''1.5'' '''' = Inr ''1.5''"
    using th [of "''1.5''" "[]" "[]" NaN] by blast
  have "match_vf (strip ''%.3f'') = None" by code_simp
  with th [of "''1.5''" "''%.3f''" "[]" NaN]
  have b: "apply_format_spec ''1.5'' ''%.3f'' = Inr ''1.5''" by blast
  have "match_vf (strip ''V.2f'') = Some ''2'' \<and> length ''2'' \<le> int_max_str_digits
      \<and> float_of_str ''abc'' = None"
    by code_simp
  with th [of "''abc''" "''V.2f''" "''2''" NaN]
  have c: "apply_format_spec ''abc'' ''V.2f'' = Inr ''abc''" by blast
  have x1: "float_of_str ''1.5'' = Some (Finite False 6755399441055744 (- 52))" by code_simp
  have "match_vf (strip ''V.3f'') = Some ''3'' \<and> length ''3'' \<le> int_max_str_digits
      \<and> int_of_digits ''3'' \<le> max_precision"
    by code_simp
  with x1 th [of "''1.5''" "''V.3f''" "''3''" "Finite False 6755399441055744 (- 52)"]
  have d0: "apply_format_spec ''1.5'' ''V.3f'' = Inr (format_f (nat (int_of_digits ''3'')) (Finite False 6755399441055744 (- 52)))
      \<and> fixed_point (nat (int_of_digits ''3'')) (format_f (nat (int_of_digits ''3'')) (Finite False 6755399441055744 (- 52)))"
    by (simp only: pyfloat.case)
  have e1: "format_f 3 (Finite False 6755399441055744 (- 52)) = ''1.500''"
    by code_simp
  have n1: "nat (int_of_digits ''3'') = 3"
    by code_simp
  from d0 have d: "apply_format_spec ''1.5'' ''V.3f'' = Inr ''1.500'' \<and> fixed_point 3 ''1.500''"
    unfolding n1 e1 .
  have x2: "float_of_str ''-2.675'' = Some (Finite True 6023564501608038 (- 51))" by code_simp
  have "match_vf (strip '' v.2F '') = Some ''2'' \<and> length ''2'' \<le> int_max_str_digits
      \<and> int_of_digits ''2'' \<le> max_precision"
    by code_simp
  with x2 th [of "''-2.675''" "'' v.2F ''" "''2''" "Finite True 6023564501608038 (- 51)"]
  have f0: "apply_format_spec ''-2.675'' '' v.2F '' = Inr (format_f (nat (int_of_digits ''2'')) (Finite True 6023564501608038 (- 51)))
      \<and> fixed_point (nat (int_of_digits ''2'')) (format_f (nat (int_of_digits ''2'')) (Finite True 6023564501608038 (- 51)))"
    by (simp only: pyfloat.case)
  have e2: "format_f 2 (Finite True 6023564501608038 (- 51)) = ''-2.67''"
    by code_simp
  have n2: "nat (int_of_digits ''2'') = 2"
    by code_simp
  from f0 have f: "apply_format_spec ''-2.675'' '' v.2F '' = Inr ''-2.67'' \<and> fixed_point 2 ''-2.67''"
    unfolding n2 e2 .
  from a b c d f show ?thesis by blast
qed

text \<open>
  C4 as stated renders every value that parses as a float with exactly \<open>N\<close> decimal
  places. \<^verbatim>\<open>float\<close> accepts \<^verbatim>\<open>inf\<close> and \<^verbatim>\<open>nan\<close> in any letter case as well, and
  their rendering has no decimal places.
\<close>

theorem apply_format_spec_counterexample:
  "match_vf (strip ''V.2f'') = Some ''2''
   \<and> float_of_str ''inf'' = Some (Infinite False)
   \<and> apply_format_spec ''inf'' ''V.2f'' = Inr ''inf''
   \<and> \<not> fixed_point 2 ''inf''
   \<and> float_of_str ''NaN'' = Some NaN
   \<and> apply_format_spec ''NaN'' ''V.2f'' = Inr ''nan''"
  by code_simp

text \<open>
  Beyond the two limits the source raises: the conversion of \<open>N\<close> and the rendering
  are outside its \<^verbatim>\<open>try\<close>.
\<close>

lemma apply_format_spec_too_precise:
  assumes "match_vf (strip fmt) = Some ds" and "length ds \<le> int_max_str_digits"
    and "float_of_str v = Some x" and "max_precision < int_of_digits ds"
  shows "apply_format_spec v fmt = Inl ValueError"
proof -
  have "match_vf (strip []) = None" by code_simp
  with assms(1) have "fmt \<noteq> []" by auto
  with assms show ?thesis by (simp add: apply_format_spec_def)
qed

lemma apply_format_spec_too_precise_example:
  "apply_format_spec ''1.5'' ''V.2147483648f'' = Inl ValueError"
  by code_simp

end
